theory Spec2Isabelle
  imports Complex_Main "HOL-Library.AList" "HOL-Library.Word"
begin

section \<open>Data model (types.ts)\<close>

text \<open>
  \<open>HistoricalRecord\<close> and \<open>WalletData\<close> are the interfaces of types.ts.  A JavaScript
  \<open>number\<close> is modelled as an exact \<open>real\<close> (rounding of doubles is not modelled), a
  JavaScript string as a \<open>string\<close> of 8-bit characters.
\<close>

record HistoricalRecord =
  date :: string
  balance :: real

record WalletData =
  address :: string
  owner :: string
  initialBalance :: real
  initialBlock :: nat
  currentBalance :: real
  lastUpdated :: string
  history :: "HistoricalRecord list"

section \<open>String helpers of the JavaScript runtime\<close>

text \<open>\<open>s.split('T')[0]\<close>: the text of \<open>s\<close> before its first \<open>T\<close> (all of \<open>s\<close> without one).\<close>

definition split_T_0 :: "string \<Rightarrow> string" where
  "split_T_0 s = takeWhile (\<lambda>c. c \<noteq> CHR ''T'') s"

text \<open>\<open>s.startsWith(p)\<close>.\<close>

definition startsWith :: "string \<Rightarrow> string \<Rightarrow> bool" where
  "startsWith s p = (take (length p) s = p)"

section \<open>HistoryLedger: updateWalletHistory (storageService.ts)\<close>

text \<open>
  The function on values.  \<open>newHistory\<close> is the copy \<open>[...wallet.history]\<close>; the
  assignment to its last index, \<open>push\<close> and \<open>shift\<close> are the list operations
  \<open>list_update\<close>, append and \<open>tl\<close>.
\<close>

definition updateWalletHistory :: "WalletData \<Rightarrow> real \<Rightarrow> string \<Rightarrow> WalletData" where
  "updateWalletHistory wallet newBalance currentDate =
    (let newHistory = history wallet;
         todayStr = split_T_0 currentDate;
         newHistory' =
           (if newHistory \<noteq> [] \<and> startsWith (date (last newHistory)) todayStr
            then newHistory[length newHistory - 1 := \<lparr>date = currentDate, balance = newBalance\<rparr>]
            else newHistory @ [\<lparr>date = currentDate, balance = newBalance\<rparr>]);
         newHistory'' = (if length newHistory' > 7 then tl newHistory' else newHistory')
     in wallet\<lparr>currentBalance := newBalance, lastUpdated := currentDate,
               history := newHistory''\<rparr>)"

text \<open>The test of the source for "an entry for today exists".\<close>

definition hasEntryForToday :: "WalletData \<Rightarrow> string \<Rightarrow> bool" where
  "hasEntryForToday wallet currentDate =
    (history wallet \<noteq> [] \<and> startsWith (date (last (history wallet))) (split_T_0 currentDate))"


subsection \<open>The same function on a store of arrays\<close>

text \<open>
  A JavaScript array is an object held by reference, and \<open>updateWalletHistory\<close> writes
  into one (\<open>newHistory[i] = ...\<close>, \<open>push\<close>, \<open>shift\<close>).  To state which array is written,
  the store is the list of all arrays allocated so far; a reference is an index into it and
  a new array takes the next index.  \<open>WalletObject\<close> is a wallet object whose \<open>history\<close>
  field is seen as the reference it holds.
\<close>

type_synonym ref = nat

type_synonym array_store = "HistoricalRecord list list"

record WalletObject =
  obj_address :: string
  obj_owner :: string
  obj_initialBalance :: real
  obj_initialBlock :: nat
  obj_currentBalance :: real
  obj_lastUpdated :: string
  obj_history :: ref

text \<open>The thrown values the model distinguishes.\<close>

datatype exn =
  TypeError      \<comment> \<open>reading a property of \<open>undefined\<close>, spreading a non-iterable\<close>
  | SyntaxError  \<comment> \<open>\<open>JSON.parse\<close> on text that is not JSON\<close>
  | RpcError     \<comment> \<open>the transport or the contract call of viem failed\<close>
  | AbiError     \<comment> \<open>viem could not encode an argument or decode return data\<close>
  | StoreError   \<comment> \<open>the remote store's client threw\<close>

definition deref :: "array_store \<Rightarrow> ref \<Rightarrow> HistoricalRecord list option" where
  "deref st r = (if r < length st then Some (st ! r) else None)"

text \<open>The wallet value an object stands for in a store.\<close>

definition wallet_of :: "array_store \<Rightarrow> WalletObject \<Rightarrow> WalletData option" where
  "wallet_of st obj =
    (case deref st (obj_history obj) of
       None \<Rightarrow> None
     | Some h \<Rightarrow> Some \<lparr>address = obj_address obj, owner = obj_owner obj,
                       initialBalance = obj_initialBalance obj,
                       initialBlock = obj_initialBlock obj,
                       currentBalance = obj_currentBalance obj,
                       lastUpdated = obj_lastUpdated obj, history = h\<rparr>)"

definition updateWalletHistory_store ::
  "array_store \<Rightarrow> WalletObject \<Rightarrow> real \<Rightarrow> string \<Rightarrow> exn + (WalletObject \<times> array_store)" where
  "updateWalletHistory_store st wallet newBalance currentDate =
    (case deref st (obj_history wallet) of
       None \<Rightarrow> Inl TypeError
     | Some old \<Rightarrow>
        (let newHistory = length st;
             st1 = st @ [old];
             todayStr = split_T_0 currentDate;
             entry = \<lparr>date = currentDate, balance = newBalance\<rparr>;
             a1 = st1 ! newHistory;
             st2 =
               (if a1 \<noteq> [] \<and> startsWith (date (last a1)) todayStr
                then st1[newHistory := a1[length a1 - 1 := entry]]
                else st1[newHistory := a1 @ [entry]]);
             a2 = st2 ! newHistory;
             st3 = (if length a2 > 7 then st2[newHistory := tl a2] else st2)
         in Inr (wallet\<lparr>obj_currentBalance := newBalance, obj_lastUpdated := currentDate,
                        obj_history := newHistory\<rparr>, st3)))"

section \<open>The world outside the functions\<close>

text \<open>
  \<open>toLowerCase\<close> on the characters \<open>A\<close> to \<open>Z\<close>; the addresses it is applied to are
  hexadecimal text.
\<close>

definition lowerChar :: "char \<Rightarrow> char" where
  "lowerChar c =
    (case map_of (zip ''ABCDEFGHIJKLMNOPQRSTUVWXYZ'' ''abcdefghijklmnopqrstuvwxyz'') c of
       Some l \<Rightarrow> l
     | None \<Rightarrow> c)"

definition toLowerCase :: "string \<Rightarrow> string" where
  "toLowerCase s = map lowerChar s"

text \<open>
  The item of \<open>localStorage\<close> under \<open>STORAGE_KEY\<close>: absent (\<open>getItem\<close> returns \<open>null\<close>,
  or the empty text, which the source's truth tests treat alike), text that \<open>JSON.parse\<close>
  rejects, or the JSON text of a wallet array.  \<open>JSON.parse (JSON.stringify ws)\<close> is
  taken to be \<open>ws\<close>.
\<close>

datatype local_item = NoItem | BadJson | Json "WalletData list"

text \<open>
  The aggregator's interface (MULTICALL_ABI in constants.ts): \<open>aggregate3\<close> takes a list of
  calls and returns a list of results.
\<close>

type_synonym bytes = "8 word list"

record Call3 =
  target :: string
  allowFailure :: bool
  callData :: bytes

record Result3 =
  success :: bool
  returnData :: bytes

text \<open>What the program does to the outside, in the order it does it.\<close>

datatype effect =
  LocalSetWallets "WalletData list"
  | LocalSetLastUpdate string
  | RemoteSelectWallets
  | RemoteUpsertWallets "WalletData list"
  | RemoteSelectLastUpdate
  | RemoteUpsertLastUpdate string
  | Aggregate3 "Call3 list"
  | Alert string

text \<open>
  How one request to the remote store ends: it is carried out, the client returns an
  \<open>error\<close> object, or the client throws.
\<close>

datatype outcome = Done | Refused | Thrown

text \<open>
  The collaborators.  \<open>supabase\<close> says whether the client was created (both credentials
  present).  A request to the remote store is answered by \<open>supabase_reply\<close> at the
  position the request takes in the trace of effects, so that every request can end in
  its own way.  \<open>aggregate3\<close> is \<open>client.readContract\<close> on the aggregator for the chunk that
  starts at the given offset; \<open>encodeFunctionData\<close> and \<open>decodeFunctionResult\<close> are viem's
  for \<open>balanceOf\<close>; \<open>getBlockNumber\<close> is the client's; \<open>nowISO\<close> is
  \<open>new Date().toISOString()\<close>, \<open>now\<close> is \<open>new Date().getTime()\<close> and \<open>parseDate\<close> is
  \<open>new Date(s).getTime()\<close>, \<open>None\<close> standing for \<open>NaN\<close>.
\<close>

record env =
  supabase :: bool
  supabase_reply :: "nat \<Rightarrow> outcome"
  encodeFunctionData :: "string \<Rightarrow> exn + bytes"
  aggregate3 :: "nat \<Rightarrow> Call3 list \<Rightarrow> exn + Result3 list"
  decodeFunctionResult :: "bytes \<Rightarrow> exn + nat"
  getBlockNumber :: "exn + nat"
  nowISO :: string
  now :: int
  parseDate :: "string \<Rightarrow> int option"

text \<open>
  The state: the two items of \<open>localStorage\<close>, the two rows of the remote table
  \<open>app_data\<close>, the React state \<open>wallets\<close> and \<open>lastUpdate\<close> of the component, and the
  trace of effects.
\<close>

record world =
  local_wallets :: local_item
  local_last_update :: "string option"
  cloud_wallets :: "WalletData list option"
  cloud_last_update :: "string option"
  wallets :: "WalletData list"
  lastUpdate :: "string option"
  trace :: "effect list"

definition emit :: "effect \<Rightarrow> world \<Rightarrow> world" where
  "emit e w = w\<lparr>trace := trace w @ [e]\<rparr>"

section \<open>WalletStore (storageService.ts)\<close>

text \<open>
  The sources hold several revisions of the storage service.  The model follows the
  latest one, in which \<open>saveWallets\<close> writes the local item before the remote row and
  \<open>getWallets\<close> ends by writing the merged collection to the local item; the component
  modelled further below is the revision of App.tsx that loads through \<open>getWallets\<close>.
\<close>

text \<open>\<open>localStorage.setItem(STORAGE_KEY, JSON.stringify(ws))\<close>.\<close>

definition localSetWallets :: "WalletData list \<Rightarrow> world \<Rightarrow> world" where
  "localSetWallets ws w = emit (LocalSetWallets ws) (w\<lparr>local_wallets := Json ws\<rparr>)"

text \<open>\<open>const data = localStorage.getItem(STORAGE_KEY); return data ? JSON.parse(data) : []\<close>.\<close>

definition localGetWallets :: "world \<Rightarrow> exn + WalletData list" where
  "localGetWallets w =
    (case local_wallets w of
       NoItem \<Rightarrow> Inr []
     | BadJson \<Rightarrow> Inl SyntaxError
     | Json ws \<Rightarrow> Inr ws)"

text \<open>
  \<open>saveWallets\<close>: the local item is written first; with a client the array is then
  upserted under the key \<open>wallets\<close>, inside a \<open>try\<close> whose \<open>catch\<close> only logs.
\<close>

definition saveWallets :: "env \<Rightarrow> WalletData list \<Rightarrow> world \<Rightarrow> world" where
  "saveWallets ev ws w =
    (let w1 = localSetWallets ws w in
     if supabase ev then
       (let w2 = emit (RemoteUpsertWallets ws) w1 in
        case supabase_reply ev (length (trace w1)) of
          Done \<Rightarrow> w2\<lparr>cloud_wallets := Some ws\<rparr>
        | Refused \<Rightarrow> w2
        | Thrown \<Rightarrow> w2)
     else w1)"

text \<open>
  The \<open>forEach\<close> over the local wallets: \<open>cloudMap\<close> is built once, before the loop, from
  the remote wallets (keys: their addresses in lower case); a local wallet whose
  lower-case address is not a key is pushed and \<open>hasNewData\<close> is set.
\<close>

fun mergeLocal ::
  "string list \<Rightarrow> WalletData list \<Rightarrow> WalletData list \<times> bool \<Rightarrow> WalletData list \<times> bool" where
  "mergeLocal cloudMap [] acc = acc"
| "mergeLocal cloudMap (localW # rest) (cloudWallets, hasNewData) =
     (if toLowerCase (address localW) \<notin> set cloudMap
      then mergeLocal cloudMap rest (cloudWallets @ [localW], True)
      else mergeLocal cloudMap rest (cloudWallets, hasNewData))"

text \<open>
  \<open>getWallets\<close>.  The select of the row \<open>wallets\<close> gives \<open>data?.value || []\<close>: the row's
  value when the request is carried out and the row exists, the empty array otherwise
  (also when the client returns an error object, which is only logged).  A throw inside
  the \<open>try\<close> (the client's, or \<open>JSON.parse\<close>'s) leads to the \<open>catch\<close>, which returns the
  local item.
\<close>

definition getWallets :: "env \<Rightarrow> world \<Rightarrow> (exn + WalletData list) \<times> world" where
  "getWallets ev w =
    (if supabase ev then
       (let w1 = emit RemoteSelectWallets w in
        case supabase_reply ev (length (trace w)) of
          Thrown \<Rightarrow> (localGetWallets w1, w1)
        | reply \<Rightarrow>
           (let cloudWallets =
                  (case (reply, cloud_wallets w1) of (Done, Some v) \<Rightarrow> v | _ \<Rightarrow> [])
            in case local_wallets w1 of
                 BadJson \<Rightarrow> (localGetWallets w1, w1)
               | NoItem \<Rightarrow> (Inr cloudWallets, localSetWallets cloudWallets w1)
               | Json localWallets \<Rightarrow>
                  (if length localWallets > 0 then
                     (let cloudMap = map (\<lambda>x. toLowerCase (address x)) cloudWallets;
                          (merged, hasNewData) =
                             mergeLocal cloudMap localWallets (cloudWallets, False);
                          w2 = (if hasNewData then saveWallets ev merged w1 else w1)
                      in (Inr merged, localSetWallets merged w2))
                   else (Inr cloudWallets, localSetWallets cloudWallets w1))))
     else (localGetWallets w, w))"

text \<open>
  \<open>getLastUpdateTime\<close>: with a client, \<open>data?.value || null\<close> of the row \<open>last_update\<close>
  (an empty text counts as no value); the local item only when the client throws or
  there is no client.
\<close>

definition getLastUpdateTime :: "env \<Rightarrow> world \<Rightarrow> string option \<times> world" where
  "getLastUpdateTime ev w =
    (if supabase ev then
       (let w1 = emit RemoteSelectLastUpdate w in
        case supabase_reply ev (length (trace w)) of
          Thrown \<Rightarrow> (local_last_update w1, w1)
        | Refused \<Rightarrow> (None, w1)
        | Done \<Rightarrow>
           (case cloud_last_update w1 of
              None \<Rightarrow> (None, w1)
            | Some v \<Rightarrow> (if v = [] then None else Some v, w1)))
     else (local_last_update w, w))"

text \<open>
  \<open>setLastUpdateTime\<close>: the local item, then the upsert, which is awaited outside any
  \<open>try\<close>, so a throw of the client leaves the function.
\<close>

definition setLastUpdateTime :: "env \<Rightarrow> string \<Rightarrow> world \<Rightarrow> (exn + unit) \<times> world" where
  "setLastUpdateTime ev isoDate w =
    (let w1 = emit (LocalSetLastUpdate isoDate) (w\<lparr>local_last_update := Some isoDate\<rparr>) in
     if supabase ev then
       (let w2 = emit (RemoteUpsertLastUpdate isoDate) w1 in
        case supabase_reply ev (length (trace w1)) of
          Done \<Rightarrow> (Inr (), w2\<lparr>cloud_last_update := Some isoDate\<rparr>)
        | Refused \<Rightarrow> (Inr (), w2)
        | Thrown \<Rightarrow> (Inl StoreError, w2))
     else (Inr (), w1))"

section \<open>ChainBalanceReader (web3Service.ts)\<close>

definition DAI_ADDRESS :: string where
  "DAI_ADDRESS = ''0x8f3Cf7ad23Cd3CaDbD9735AFf958023239c6A063''"

definition CHUNK_SIZE :: nat where
  "CHUNK_SIZE = 100"

text \<open>
  \<open>addresses.map(addr => ({target, allowFailure: true, callData: encodeFunctionData(...)}))\<close>;
  a throw of \<open>encodeFunctionData\<close> ends the map.
\<close>

fun buildCalls :: "env \<Rightarrow> string list \<Rightarrow> exn + Call3 list" where
  "buildCalls ev [] = Inr []"
| "buildCalls ev (addr # rest) =
     (case encodeFunctionData ev addr of
        Inl e \<Rightarrow> Inl e
      | Inr d \<Rightarrow>
         (case buildCalls ev rest of
            Inl e \<Rightarrow> Inl e
          | Inr cs \<Rightarrow> Inr (\<lparr>target = DAI_ADDRESS, allowFailure = True, callData = d\<rparr> # cs)))"

text \<open>\<open>parseFloat(formatUnits(balanceBigInt, 18))\<close>, without the rounding to a double.\<close>

definition formatUnits18 :: "nat \<Rightarrow> real" where
  "formatUnits18 n = real n / 10 ^ 18"

text \<open>
  \<open>chunkCalls.forEach((_, index) => ...)\<close> over the indices of the chunk that starts at
  offset \<open>i\<close>.  \<open>results[index]\<close> beyond the end of \<open>results\<close> is \<open>undefined\<close>, and reading its
  \<open>success\<close> throws.  \<open>addresses[i + index]\<close> is within \<open>addresses\<close> for every index of a
  chunk, since \<open>calls\<close> has the length of \<open>addresses\<close>.
\<close>

fun forEachResult ::
  "env \<Rightarrow> string list \<Rightarrow> Result3 list \<Rightarrow> nat \<Rightarrow> nat list \<Rightarrow> (string \<rightharpoonup> real)
     \<Rightarrow> exn + (string \<rightharpoonup> real)" where
  "forEachResult ev addresses results i [] resultsMap = Inr resultsMap"
| "forEachResult ev addresses results i (index # rest) resultsMap =
     (if index < length results then
        (let result = results ! index;
             addr = addresses ! (i + index)
         in if success result then
              (case decodeFunctionResult ev (returnData result) of
                 Inl e \<Rightarrow> Inl e
               | Inr balanceBigInt \<Rightarrow>
                  forEachResult ev addresses results i rest
                    (resultsMap(addr \<mapsto> formatUnits18 balanceBigInt)))
            else forEachResult ev addresses results i rest (resultsMap(addr \<mapsto> 0)))
      else Inl TypeError)"

text \<open>
  The loop \<open>for (let i = 0; i < calls.length; i += CHUNK_SIZE)\<close>.  Beside the result it
  returns the chunks handed to the aggregator, in order.  The \<open>catch\<close> of the source logs
  and rethrows, so an error is the result.
\<close>

function fetchLoop ::
  "env \<Rightarrow> string list \<Rightarrow> Call3 list \<Rightarrow> nat \<Rightarrow> (string \<rightharpoonup> real) \<Rightarrow> Call3 list list
     \<Rightarrow> (exn + (string \<rightharpoonup> real)) \<times> Call3 list list" where
  "fetchLoop ev addresses calls i resultsMap sent =
     (if i < length calls then
        (let chunkCalls = take CHUNK_SIZE (drop i calls);
             sent' = sent @ [chunkCalls]
         in case aggregate3 ev i chunkCalls of
              Inl e \<Rightarrow> (Inl e, sent')
            | Inr results \<Rightarrow>
               (case forEachResult ev addresses results i [0..<length chunkCalls] resultsMap of
                  Inl e \<Rightarrow> (Inl e, sent')
                | Inr m \<Rightarrow> fetchLoop ev addresses calls (i + CHUNK_SIZE) m sent'))
      else (Inr resultsMap, sent))"
  by pat_completeness auto
termination
  by (relation "measure (\<lambda>(ev, addresses, calls, i, resultsMap, sent). length calls - i)")
     (auto simp: CHUNK_SIZE_def)

declare fetchLoop.simps [simp del]

definition fetchBalancesBatch ::
  "env \<Rightarrow> string list \<Rightarrow> (exn + (string \<rightharpoonup> real)) \<times> Call3 list list" where
  "fetchBalancesBatch ev addresses =
    (if length addresses = 0 then (Inr Map.empty, [])
     else
       (case buildCalls ev addresses of
          Inl e \<Rightarrow> (Inl e, [])
        | Inr calls \<Rightarrow> fetchLoop ev addresses calls 0 Map.empty []))"

text \<open>\<open>fetchBlockNumber\<close>: the block number, or 0 when the client throws.\<close>

definition fetchBlockNumber :: "env \<Rightarrow> nat" where
  "fetchBlockNumber ev = (case getBlockNumber ev of Inl e \<Rightarrow> 0 | Inr n \<Rightarrow> n)"

section \<open>SyncOrchestrator (App.tsx)\<close>

definition emits :: "effect list \<Rightarrow> world \<Rightarrow> world" where
  "emits es w = w\<lparr>trace := trace w @ es\<rparr>"

text \<open>
  \<open>handleSyncBalances\<close>.  The loading flag of the component is not modelled.  A throw of
  \<open>fetchBalancesBatch\<close> or of \<open>setLastUpdateTime\<close> is caught and shown by \<open>alert\<close>.
\<close>

definition handleSyncBalances :: "env \<Rightarrow> WalletData list \<Rightarrow> world \<Rightarrow> world" where
  "handleSyncBalances ev currentWallets w =
    (if length currentWallets = 0 then w
     else
       (let addresses = map address currentWallets;
            (fetched, sent) = fetchBalancesBatch ev addresses;
            w1 = emits (map Aggregate3 sent) w
        in case fetched of
             Inl e \<Rightarrow>
               emit (Alert ''Failed to sync balances. Check console and RPC settings in Admin.'') w1
           | Inr balancesMap \<Rightarrow>
              (let updatedWallets =
                     map (\<lambda>x. updateWalletHistory x
                                 (case balancesMap (address x) of
                                    Some newBal \<Rightarrow> newBal
                                  | None \<Rightarrow> currentBalance x)
                                 (nowISO ev))
                         currentWallets;
                   w2 = saveWallets ev updatedWallets (w1\<lparr>wallets := updatedWallets\<rparr>);
                   (r, w3) = setLastUpdateTime ev (nowISO ev) (w2\<lparr>lastUpdate := Some (nowISO ev)\<rparr>)
               in case r of
                    Inl e \<Rightarrow>
                      emit (Alert ''Failed to sync balances. Check console and RPC settings in Admin.'') w3
                  | Inr u \<Rightarrow> w3)))"

text \<open>The decimal text of a number, as a template literal prints it.\<close>

fun showNat :: "nat \<Rightarrow> string" where
  "showNat n =
     (if n < 10 then [''0123456789'' ! n]
      else showNat (n div 10) @ [''0123456789'' ! (n mod 10)])"

declare showNat.simps [simp del]

record entry =
  entry_address :: string
  entry_label :: string

text \<open>
  The record built for the entry at index \<open>idx\<close> of an upload: \<open>balancesMap.get(...) || 0\<close>
  and \<open>entry.label || `Wallet #${wallets.length + idx + 1}`\<close>.
\<close>

definition newWallet ::
  "(string \<rightharpoonup> real) \<Rightarrow> nat \<Rightarrow> string \<Rightarrow> nat \<Rightarrow> entry \<Rightarrow> nat \<Rightarrow> WalletData" where
  "newWallet balancesMap currentBlock nowIso nWallets e idx =
    (let bal = (case balancesMap (entry_address e) of Some b \<Rightarrow> b | None \<Rightarrow> 0);
         label = (if entry_label e \<noteq> [] then entry_label e
                  else ''Wallet #'' @ showNat (nWallets + idx + 1))
     in \<lparr>address = entry_address e, owner = label, initialBalance = bal,
         initialBlock = currentBlock, currentBalance = bal, lastUpdated = nowIso,
         history = [\<lparr>date = nowIso, balance = bal\<rparr>]\<rparr>)"

text \<open>
  \<open>uniqueMap.set(w.address, w)\<close> for each wallet of a list: a JavaScript \<open>Map\<close> keeps a
  key where it was first inserted and replaces its value, which is \<open>AList.update\<close>.
\<close>

definition setAll :: "WalletData list \<Rightarrow> (string \<times> WalletData) list \<Rightarrow> (string \<times> WalletData) list" where
  "setAll ws uniqueMap = foldl (\<lambda>m x. AList.update (address x) x m) uniqueMap ws"

definition handleUploadAddresses :: "env \<Rightarrow> entry list \<Rightarrow> world \<Rightarrow> world" where
  "handleUploadAddresses ev newEntries w =
    (let currentBlock = fetchBlockNumber ev;
         addresses = map entry_address newEntries;
         (fetched, sent) = fetchBalancesBatch ev addresses;
         w1 = emits (map Aggregate3 sent) w
     in case fetched of
          Inl e \<Rightarrow>
            emit (Alert ''Error initializing new addresses. Please check your RPC connection.'') w1
        | Inr balancesMap \<Rightarrow>
           (let newWallets =
                  map (\<lambda>(e, idx). newWallet balancesMap currentBlock (nowISO ev)
                                     (length (wallets w)) e idx)
                      (zip newEntries [0..<length newEntries]);
                uniqueMap = setAll newWallets (setAll (wallets w) []);
                unique = map snd uniqueMap;
                w2 = saveWallets ev unique (w1\<lparr>wallets := unique\<rparr>);
                (r, w3) = setLastUpdateTime ev (nowISO ev) (w2\<lparr>lastUpdate := Some (nowISO ev)\<rparr>)
            in case r of
                 Inl e \<Rightarrow>
                   emit (Alert ''Error initializing new addresses. Please check your RPC connection.'') w3
               | Inr u \<Rightarrow> w3))"

text \<open>
  The guard of the automatic refresh in \<open>initData\<close>:
  \<open>if (last) { ... if (Math.abs(now - lastDate) / 36e5 > 24) ... }\<close>.  \<open>last\<close> is \<open>null\<close> or a
  text; the empty text is false as well; a text that is no date gives \<open>NaN\<close>, and
  \<open>NaN > 24\<close> is false.
\<close>

definition autoSyncDue :: "env \<Rightarrow> string option \<Rightarrow> bool" where
  "autoSyncDue ev lastTime =
    (case lastTime of
       None \<Rightarrow> False
     | Some s \<Rightarrow>
        (if s = [] then False
         else (case parseDate ev s of
                 None \<Rightarrow> False
               | Some lastDate \<Rightarrow> real_of_int (abs (now ev - lastDate)) / 3600000 > 24)))"

text \<open>
  \<open>initData\<close>, run once when the component mounts.  A rejected \<open>getWallets\<close> ends it
  (nothing catches it).
\<close>

definition initData :: "env \<Rightarrow> world \<Rightarrow> world" where
  "initData ev w =
    (case getWallets ev w of
       (Inl e, w1) \<Rightarrow> w1
     | (Inr loaded, w1) \<Rightarrow>
        (let (lastTime, w2) = getLastUpdateTime ev (w1\<lparr>wallets := loaded\<rparr>);
             w3 = w2\<lparr>lastUpdate := lastTime\<rparr>
         in if autoSyncDue ev lastTime then handleSyncBalances ev loaded w3 else w3))"

section \<open>Notions used in the statements\<close>

text \<open>
  The reconciliation as the specification words it: the local records whose address is,
  up to letter case, the address of no record of the remote collection \<open>R\<close>.  It is
  compared with \<open>mergeLocal\<close>, the loop of the source.
\<close>

definition localOnly :: "WalletData list \<Rightarrow> WalletData list \<Rightarrow> WalletData list" where
  "localOnly R L =
     filter (\<lambda>x. toLowerCase (address x) \<notin> set (map (\<lambda>y. toLowerCase (address y)) R)) L"

text \<open>
  Words of the specification about the balance reader, to be compared with the loop of
  the source.  \<open>chunksOf\<close> is the input cut into consecutive chunks of at most \<open>CHUNK_SIZE\<close>.
  \<open>resultAt\<close> is the sub-call result the aggregator returned for the call of index \<open>j\<close>:
  the result at position \<open>j mod CHUNK_SIZE\<close> of the reply to the chunk \<open>j\<close> lies in.
  \<open>amountOf\<close> is what a result stands for: the decoded amount with 18 decimals for a
  successful sub-call, zero for a failed one.
\<close>

definition chunksOf :: "'a list \<Rightarrow> 'a list list" where
  "chunksOf xs =
     map (\<lambda>k. take CHUNK_SIZE (drop (k * CHUNK_SIZE) xs))
         [0..<(length xs + CHUNK_SIZE - 1) div CHUNK_SIZE]"

definition resultAt :: "env \<Rightarrow> Call3 list \<Rightarrow> nat \<Rightarrow> Result3 option" where
  "resultAt ev calls j =
     (let i = j div CHUNK_SIZE * CHUNK_SIZE in
      case aggregate3 ev i (take CHUNK_SIZE (drop i calls)) of
        Inl e \<Rightarrow> None
      | Inr results \<Rightarrow>
         (if j mod CHUNK_SIZE < length results then Some (results ! (j mod CHUNK_SIZE))
          else None))"

definition amountOf :: "env \<Rightarrow> Result3 \<Rightarrow> real option" where
  "amountOf ev r =
     (if success r then
        (case decodeFunctionResult ev (returnData r) of
           Inl e \<Rightarrow> None
         | Inr n \<Rightarrow> Some (formatUnits18 n))
      else Some 0)"

text \<open>
  \<open>amountAt\<close> is the amount for the address of index \<open>j\<close>.  \<open>setAmounts\<close> is the writes of
  one \<open>forEach\<close> as a fold over the indices of a chunk, \<open>setAll_amounts\<close> the writes for
  the addresses of the indices \<open>js\<close> of the whole input.
\<close>

definition amountAt :: "env \<Rightarrow> Call3 list \<Rightarrow> nat \<Rightarrow> real option" where
  "amountAt ev calls j = (case resultAt ev calls j of None \<Rightarrow> None | Some r \<Rightarrow> amountOf ev r)"

definition setAmounts ::
  "env \<Rightarrow> string list \<Rightarrow> Result3 list \<Rightarrow> nat \<Rightarrow> nat list \<Rightarrow> (string \<rightharpoonup> real) \<Rightarrow> (string \<rightharpoonup> real)" where
  "setAmounts ev addrs results i idxs m =
     foldl (\<lambda>m k. m(addrs ! (i + k) := amountOf ev (results ! k))) m idxs"

definition setAll_amounts ::
  "env \<Rightarrow> string list \<Rightarrow> Call3 list \<Rightarrow> nat list \<Rightarrow> (string \<rightharpoonup> real) \<Rightarrow> (string \<rightharpoonup> real)" where
  "setAll_amounts ev addrs calls js m =
     foldl (\<lambda>m j. m(addrs ! j := amountAt ev calls j)) m js"



text \<open>The collection an upload leaves in the component, when its fetch is successful.\<close>

definition uploaded :: "env \<Rightarrow> (string \<rightharpoonup> real) \<Rightarrow> entry list \<Rightarrow> world \<Rightarrow> WalletData list" where
  "uploaded ev m es w =
     map snd (setAll (map (\<lambda>(e, idx). newWallet m (fetchBlockNumber ev) (nowISO ev)
                                          (length (wallets w)) e idx)
                          (zip es [0..<length es]))
                     (setAll (wallets w) []))"

section \<open>Sample values\<close>

definition week :: "HistoricalRecord list" where
  "week = [\<lparr>date = ''2024-01-01T08:00:00.000Z'', balance = 10\<rparr>,
           \<lparr>date = ''2024-01-02T08:00:00.000Z'', balance = 20\<rparr>,
           \<lparr>date = ''2024-01-03T08:00:00.000Z'', balance = 30\<rparr>,
           \<lparr>date = ''2024-01-04T08:00:00.000Z'', balance = 40\<rparr>,
           \<lparr>date = ''2024-01-05T08:00:00.000Z'', balance = 50\<rparr>,
           \<lparr>date = ''2024-01-06T08:00:00.000Z'', balance = 60\<rparr>,
           \<lparr>date = ''2024-01-07T08:00:00.000Z'', balance = 70\<rparr>]"

definition walletWith :: "HistoricalRecord list \<Rightarrow> WalletData" where
  "walletWith h =
    \<lparr>address = ''0xaaaaaaaaaaaaaaaaaaaaaaaaaaaaaaaaaaaaaaaa'', owner = ''A'',
     initialBalance = 10, initialBlock = 1, currentBalance = 70,
     lastUpdated = ''2024-01-07T08:00:00.000Z'', history = h\<rparr>"

definition objectAt :: "ref \<Rightarrow> WalletObject" where
  "objectAt r =
    \<lparr>obj_address = ''0xaaaaaaaaaaaaaaaaaaaaaaaaaaaaaaaaaaaaaaaa'', obj_owner = ''A'',
     obj_initialBalance = 10, obj_initialBlock = 1, obj_currentBalance = 70,
     obj_lastUpdated = ''2024-01-07T08:00:00.000Z'', obj_history = r\<rparr>"

definition decode_uint256 :: "bytes \<Rightarrow> exn + nat" where
  "decode_uint256 bs =
    (if length bs < 32 then Inl AbiError
     else Inr (foldl (\<lambda>acc b. acc * 256 + unat b) 0 (take 32 bs)))"

definition sampleDates :: "(string \<times> int) list" where
  "sampleDates =
    [(''2024-01-06T08:00:00.000Z'', 1704528000000),
     (''2024-01-07T08:00:00.000Z'', 1704614400000),
     (''2024-01-08T07:00:00.000Z'', 1704697200000)]"

definition sampleEnv ::
  "bool \<Rightarrow> (nat \<Rightarrow> outcome) \<Rightarrow> (nat \<Rightarrow> Call3 list \<Rightarrow> exn + Result3 list) \<Rightarrow> env" where
  "sampleEnv cloud reply agg =
    \<lparr>supabase = cloud, supabase_reply = reply,
     encodeFunctionData = (\<lambda>addr. Inr ([0x70, 0xa0, 0x82, 0x31] @ map of_char addr)),
     aggregate3 = agg, decodeFunctionResult = decode_uint256,
     getBlockNumber = Inr 50000000, nowISO = ''2024-01-08T08:00:00.000Z'',
     now = 1704700800000, parseDate = map_of sampleDates\<rparr>"

definition sampleWallet :: "string \<Rightarrow> string \<Rightarrow> real \<Rightarrow> WalletData" where
  "sampleWallet a l b =
    \<lparr>address = a, owner = l, initialBalance = b, initialBlock = 1, currentBalance = b,
     lastUpdated = ''2024-01-07T08:00:00.000Z'',
     history = [\<lparr>date = ''2024-01-07T08:00:00.000Z'', balance = b\<rparr>]\<rparr>"

definition walletA :: WalletData where
  "walletA = sampleWallet ''0xaaaaaaaaaaaaaaaaaaaaaaaaaaaaaaaaaaaaaaaa'' ''A'' 1"

definition walletB :: WalletData where
  "walletB = sampleWallet ''0xbbbbbbbbbbbbbbbbbbbbbbbbbbbbbbbbbbbbbbbb'' ''B'' 2"

definition walletB_stale :: WalletData where
  "walletB_stale = sampleWallet ''0xBBbbbbbbbbbbbbbbbbbbbbbbbbbbbbbbbbbbbbbb'' ''B old'' 5"

definition walletC :: WalletData where
  "walletC = sampleWallet ''0xcccccccccccccccccccccccccccccccccccccccc'' ''C'' 3"

definition sampleWorld ::
  "local_item \<Rightarrow> string option \<Rightarrow> WalletData list option \<Rightarrow> string option \<Rightarrow> world" where
  "sampleWorld lw ll cw cl =
    \<lparr>local_wallets = lw, local_last_update = ll, cloud_wallets = cw, cloud_last_update = cl,
     wallets = [], lastUpdate = None, trace = []\<rparr>"

definition oneDai :: bytes where
  "oneDai = [0, 0, 0, 0, 0, 0, 0, 0, 0, 0, 0, 0, 0, 0, 0, 0, 0, 0, 0, 0, 0, 0, 0, 0,
             0x0D, 0xE0, 0xB6, 0xB3, 0xA7, 0x64, 0x00, 0x00]"

definition addrA :: string where
  "addrA = ''0xaaaaaaaaaaaaaaaaaaaaaaaaaaaaaaaaaaaaaaaa''"

definition addrB :: string where
  "addrB = ''0xbbbbbbbbbbbbbbbbbbbbbbbbbbbbbbbbbbbbbbbb''"

text \<open>
  An aggregator that reports the first sub-call of a chunk as successful with the return
  data of 10^18 and every other sub-call as failed with no data.
\<close>

definition firstOnly :: "nat \<Rightarrow> Call3 list \<Rightarrow> exn + Result3 list" where
  "firstOnly i cs =
     Inr (map (\<lambda>k. if k = 0 then \<lparr>success = True, returnData = oneDai\<rparr>
                     else \<lparr>success = False, returnData = []\<rparr>) [0..<length cs])"

definition callsAB :: "Call3 list" where
  "callsAB =
     [\<lparr>target = DAI_ADDRESS, allowFailure = True,
       callData = [0x70, 0xa0, 0x82, 0x31] @ map of_char addrA\<rparr>,
      \<lparr>target = DAI_ADDRESS, allowFailure = True,
       callData = [0x70, 0xa0, 0x82, 0x31] @ map of_char addrB\<rparr>]"

text \<open>An aggregator whose call for the chunk at offset 100 fails.\<close>

definition secondChunkFails :: "nat \<Rightarrow> Call3 list \<Rightarrow> exn + Result3 list" where
  "secondChunkFails i cs = (if i = 100 then Inl RpcError else firstOnly i cs)"

definition addrX :: string where
  "addrX = ''0x742d35Cc6634C0532925a3b844Bc454e4438f44e''"

definition emptyWorld :: world where
  "emptyWorld = sampleWorld NoItem None None None"

definition entryOf :: "string \<Rightarrow> string \<Rightarrow> entry" where
  "entryOf a l = \<lparr>entry_address = a, entry_label = l\<rparr>"

section \<open>Properties of updateWalletHistory\<close>

lemma startsWith_split_T_0: "startsWith s (split_T_0 s)"
proof -
  have "take (length (takeWhile (\<lambda>c. c \<noteq> CHR ''T'') s)) s = takeWhile (\<lambda>c. c \<noteq> CHR ''T'') s"
    by (induction s) auto
  then show ?thesis
    by (simp add: startsWith_def split_T_0_def)
qed

lemma list_update_last: "xs \<noteq> [] \<Longrightarrow> xs[length xs - Suc 0 := x] = butlast xs @ [x]"
  by (induction xs rule: rev_induct) auto

lemma history_replace:
  assumes "hasEntryForToday w t" and "length (history w) \<le> 7"
  shows "history (updateWalletHistory w b t) = butlast (history w) @ [\<lparr>date = t, balance = b\<rparr>]"
  using assms
  by (simp add: updateWalletHistory_def hasEntryForToday_def Let_def list_update_last)

lemma history_append:
  assumes "\<not> hasEntryForToday w t" and "length (history w) < 7"
  shows "history (updateWalletHistory w b t) = history w @ [\<lparr>date = t, balance = b\<rparr>]"
  using assms
  by (auto simp add: updateWalletHistory_def hasEntryForToday_def Let_def)

lemma history_append_evict:
  assumes "\<not> hasEntryForToday w t" and "7 \<le> length (history w)"
  shows "history (updateWalletHistory w b t) = tl (history w) @ [\<lparr>date = t, balance = b\<rparr>]"
proof -
  from assms(2) have "history w \<noteq> []" by auto
  with assms show ?thesis
    by (auto simp add: updateWalletHistory_def hasEntryForToday_def Let_def)
qed

lemma history_replace_evict:
  assumes "hasEntryForToday w t" and "7 < length (history w)"
  shows "history (updateWalletHistory w b t) =
           tl (butlast (history w) @ [\<lparr>date = t, balance = b\<rparr>])"
  using assms
  by (simp add: updateWalletHistory_def hasEntryForToday_def Let_def list_update_last)

lemma updateWalletHistory_fields:
  "currentBalance (updateWalletHistory w b t) = b"
  "lastUpdated (updateWalletHistory w b t) = t"
  "address (updateWalletHistory w b t) = address w"
  "owner (updateWalletHistory w b t) = owner w"
  "initialBalance (updateWalletHistory w b t) = initialBalance w"
  "initialBlock (updateWalletHistory w b t) = initialBlock w"
  by (simp_all add: updateWalletHistory_def Let_def)

lemma updateWalletHistory_last:
  "history (updateWalletHistory w b t) \<noteq> [] \<and>
   last (history (updateWalletHistory w b t)) = \<lparr>date = t, balance = b\<rparr>"
proof (cases "hasEntryForToday w t")
  case True
  then have ne: "history w \<noteq> []" by (simp add: hasEntryForToday_def)
  show ?thesis
  proof (cases "7 < length (history w)")
    case True
    with \<open>hasEntryForToday w t\<close>
    have h: "history (updateWalletHistory w b t) = tl (butlast (history w) @ [\<lparr>date = t, balance = b\<rparr>])"
      by (rule history_replace_evict)
    from True have "butlast (history w) \<noteq> []"
      by (cases "history w" rule: rev_cases) auto
    then show ?thesis by (simp add: h last_tl)
  next
    case False
    with \<open>hasEntryForToday w t\<close> show ?thesis by (simp add: history_replace)
  qed
next
  case False
  show ?thesis
  proof (cases "7 \<le> length (history w)")
    case True
    with False show ?thesis by (simp add: history_append_evict)
  next
    case False
    with \<open>\<not> hasEntryForToday w t\<close> show ?thesis by (simp add: history_append)
  qed
qed

lemma hasEntryForToday_after_update: "hasEntryForToday (updateWalletHistory w b t) t"
  using updateWalletHistory_last [of w b t]
  by (simp add: hasEntryForToday_def startsWith_split_T_0)

lemma butlast_append_last: "xs \<noteq> [] \<Longrightarrow> last xs = x \<Longrightarrow> butlast xs @ [x] = xs"
  by auto

lemma updateWalletHistory_again_small:
  assumes "length (history (updateWalletHistory w b t)) \<le> 7"
  shows "updateWalletHistory (updateWalletHistory w b t) b t = updateWalletHistory w b t"
proof -
  let ?w' = "updateWalletHistory w b t"
  have "history (updateWalletHistory ?w' b t) = butlast (history ?w') @ [\<lparr>date = t, balance = b\<rparr>]"
    using hasEntryForToday_after_update assms by (rule history_replace)
  also have "\<dots> = history ?w'"
    using updateWalletHistory_last [of w b t] by (simp add: butlast_append_last)
  finally have h: "history (updateWalletHistory ?w' b t) = history ?w'" .
  have "updateWalletHistory ?w' b t =
        ?w'\<lparr>currentBalance := b, lastUpdated := t, history := history (updateWalletHistory ?w' b t)\<rparr>"
    by (simp add: updateWalletHistory_def Let_def)
  also have "\<dots> = ?w'"
    by (simp add: h updateWalletHistory_fields)
  finally show ?thesis .
qed

lemma updateWalletHistory_again_large:
  assumes "7 < length (history (updateWalletHistory w b t))"
  shows "length (history (updateWalletHistory (updateWalletHistory w b t) b t)) <
         length (history (updateWalletHistory w b t))"
proof -
  let ?w' = "updateWalletHistory w b t"
  have "history (updateWalletHistory ?w' b t) =
          tl (butlast (history ?w') @ [\<lparr>date = t, balance = b\<rparr>])"
    using hasEntryForToday_after_update assms by (rule history_replace_evict)
  then have "length (history (updateWalletHistory ?w' b t)) = length (history ?w') - 1"
    using assms by simp
  with assms show ?thesis by simp
qed

lemma length_updateWalletHistory_le:
  assumes "length (history w) \<le> 7"
  shows "length (history (updateWalletHistory w b t)) \<le> 7"
  using assms by (auto simp add: updateWalletHistory_def Let_def)

subsection \<open>The function on the store of arrays\<close>

lemma updateWalletHistory_store_Inr:
  assumes "deref st (obj_history obj) = Some old"
  shows "updateWalletHistory_store st obj b t =
           Inr (obj\<lparr>obj_currentBalance := b, obj_lastUpdated := t, obj_history := length st\<rparr>,
                st @ [history (updateWalletHistory (the (wallet_of st obj)) b t)])"
  using assms
  by (simp add: updateWalletHistory_store_def updateWalletHistory_def wallet_of_def Let_def)

lemma updateWalletHistory_store_Inl:
  assumes "deref st (obj_history obj) = None"
  shows "updateWalletHistory_store st obj b t = Inl TypeError"
  using assms by (simp add: updateWalletHistory_store_def)

lemma deref_append: "deref st r = Some xs \<Longrightarrow> deref (st @ ys) r = Some xs"
  by (auto simp add: deref_def nth_append split: if_splits)

lemma wallet_of_append: "wallet_of st obj = Some wd \<Longrightarrow> wallet_of (st @ ys) obj = Some wd"
  by (auto simp add: wallet_of_def deref_append split: option.splits)

lemma updateWalletHistory_store_refines:
  assumes "wallet_of st obj = Some wd"
  shows "\<exists>obj' st'. updateWalletHistory_store st obj b t = Inr (obj', st') \<and>
           take (length st) st' = st \<and> obj_history obj' = length st \<and>
           wallet_of st' obj = Some wd \<and>
           wallet_of st' obj' = Some (updateWalletHistory wd b t)"
proof -
  from assms obtain old where old: "deref st (obj_history obj) = Some old"
    by (auto simp add: wallet_of_def split: option.splits)
  let ?obj' = "obj\<lparr>obj_currentBalance := b, obj_lastUpdated := t, obj_history := length st\<rparr>"
  let ?st' = "st @ [history (updateWalletHistory wd b t)]"
  from old assms have run: "updateWalletHistory_store st obj b t = Inr (?obj', ?st')"
    by (simp add: updateWalletHistory_store_Inr)
  have same: "wallet_of ?st' obj = Some wd"
    using assms by (rule wallet_of_append)
  have fields: "address wd = obj_address obj" "owner wd = obj_owner obj"
    "initialBalance wd = obj_initialBalance obj" "initialBlock wd = obj_initialBlock obj"
    using assms by (auto simp add: wallet_of_def split: option.splits)
  have new: "wallet_of ?st' ?obj' = Some (updateWalletHistory wd b t)"
    using fields by (simp add: wallet_of_def deref_def updateWalletHistory_def Let_def)
  from run same new show ?thesis by simp
qed

lemma hasEntryForToday_calendar_date:
  assumes "history w \<noteq> []"
    and "length (split_T_0 (date (last (history w)))) = length (split_T_0 t)"
  shows "hasEntryForToday w t \<longleftrightarrow> split_T_0 (date (last (history w))) = split_T_0 t"
proof -
  let ?s = "date (last (history w))"
  have "split_T_0 ?s = take (length (split_T_0 ?s)) ?s"
    unfolding split_T_0_def by (rule takeWhile_eq_take)
  with assms(2) have "split_T_0 ?s = take (length (split_T_0 t)) ?s"
    by simp
  with assms(1) show ?thesis
    by (auto simp add: hasEntryForToday_def startsWith_def)
qed

subsection \<open>Claims about updateWalletHistory\<close>

text \<open>
  Claim C3.  The returned record has \<open>currentBalance\<close> and \<open>lastUpdated\<close> set to the
  observation's balance and timestamp.  When the source's test for an entry of today
  holds (the last entry's date text starts with the timestamp's text before its first
  \<open>T\<close>; for date parts of equal length, as in ISO timestamps, this is equality of the
  calendar dates) and the history has at most 7 entries, as every history of the data
  model has, the last entry is replaced by the observation and the length is unchanged.
  When the test fails, the observation is appended: it follows the whole old history
  while that has fewer than 7 entries, and the old history without its first entry
  once the cap of 7 is reached.  A history of more than 7 entries with an entry of today
  has its last entry replaced and its first one removed.  On the store of arrays the
  function writes to a new array only: every array of the store before the call is
  unchanged, the input object still stands for the same record, and the returned object
  stands for the record computed on values.
\<close>

theorem updateWalletHistory_replaces_or_appends:
  "currentBalance (updateWalletHistory w b t) = b \<and>
   lastUpdated (updateWalletHistory w b t) = t \<and>
   last (history (updateWalletHistory w b t)) = \<lparr>date = t, balance = b\<rparr> \<and>
   (history w \<noteq> [] \<and> length (split_T_0 (date (last (history w)))) = length (split_T_0 t) \<longrightarrow>
      (hasEntryForToday w t \<longleftrightarrow> split_T_0 (date (last (history w))) = split_T_0 t)) \<and>
   (hasEntryForToday w t \<and> length (history w) \<le> 7 \<longrightarrow>
      history (updateWalletHistory w b t) = butlast (history w) @ [\<lparr>date = t, balance = b\<rparr>] \<and>
      length (history (updateWalletHistory w b t)) = length (history w)) \<and>
   (hasEntryForToday w t \<and> 7 < length (history w) \<longrightarrow>
      history (updateWalletHistory w b t) =
        tl (butlast (history w) @ [\<lparr>date = t, balance = b\<rparr>])) \<and>
   (\<not> hasEntryForToday w t \<and> length (history w) < 7 \<longrightarrow>
      history (updateWalletHistory w b t) = history w @ [\<lparr>date = t, balance = b\<rparr>]) \<and>
   (\<not> hasEntryForToday w t \<and> 7 \<le> length (history w) \<longrightarrow>
      history (updateWalletHistory w b t) = tl (history w) @ [\<lparr>date = t, balance = b\<rparr>]) \<and>
   (wallet_of st obj = Some w \<longrightarrow>
      (\<exists>obj' st'. updateWalletHistory_store st obj b t = Inr (obj', st') \<and>
         take (length st) st' = st \<and> wallet_of st' obj = Some w \<and>
         wallet_of st' obj' = Some (updateWalletHistory w b t)))"
proof -
  have replace: "hasEntryForToday w t \<and> length (history w) \<le> 7 \<longrightarrow>
      history (updateWalletHistory w b t) = butlast (history w) @ [\<lparr>date = t, balance = b\<rparr>] \<and>
      length (history (updateWalletHistory w b t)) = length (history w)"
  proof
    assume a: "hasEntryForToday w t \<and> length (history w) \<le> 7"
    then have ne: "history w \<noteq> []" by (simp add: hasEntryForToday_def)
    from a have h: "history (updateWalletHistory w b t) = butlast (history w) @ [\<lparr>date = t, balance = b\<rparr>]"
      by (simp add: history_replace)
    from ne have "length (butlast (history w) @ [\<lparr>date = t, balance = b\<rparr>]) = length (history w)"
      by (cases "history w" rule: rev_cases) auto
    with h show "history (updateWalletHistory w b t) = butlast (history w) @ [\<lparr>date = t, balance = b\<rparr>] \<and>
      length (history (updateWalletHistory w b t)) = length (history w)"
      by simp
  qed
  have store: "wallet_of st obj = Some w \<longrightarrow>
      (\<exists>obj' st'. updateWalletHistory_store st obj b t = Inr (obj', st') \<and>
         take (length st) st' = st \<and> wallet_of st' obj = Some w \<and>
         wallet_of st' obj' = Some (updateWalletHistory w b t))"
  proof
    assume "wallet_of st obj = Some w"
    from updateWalletHistory_store_refines [OF this, of b t]
    show "\<exists>obj' st'. updateWalletHistory_store st obj b t = Inr (obj', st') \<and>
         take (length st) st' = st \<and> wallet_of st' obj = Some w \<and>
         wallet_of st' obj' = Some (updateWalletHistory w b t)"
      by blast
  qed
  have fields: "currentBalance (updateWalletHistory w b t) = b"
    "lastUpdated (updateWalletHistory w b t) = t"
    by (simp_all add: updateWalletHistory_fields)
  have newest: "last (history (updateWalletHistory w b t)) = \<lparr>date = t, balance = b\<rparr>"
    using updateWalletHistory_last [of w b t] by blast
  have test: "history w \<noteq> [] \<and>
      length (split_T_0 (date (last (history w)))) = length (split_T_0 t) \<longrightarrow>
      (hasEntryForToday w t \<longleftrightarrow> split_T_0 (date (last (history w))) = split_T_0 t)"
    using hasEntryForToday_calendar_date [of w t] by blast
  have over: "hasEntryForToday w t \<and> 7 < length (history w) \<longrightarrow>
      history (updateWalletHistory w b t) =
        tl (butlast (history w) @ [\<lparr>date = t, balance = b\<rparr>])"
    using history_replace_evict [of w t b] by blast
  have append: "\<not> hasEntryForToday w t \<and> length (history w) < 7 \<longrightarrow>
      history (updateWalletHistory w b t) = history w @ [\<lparr>date = t, balance = b\<rparr>]"
    using history_append [of w t b] by blast
  have evict: "\<not> hasEntryForToday w t \<and> 7 \<le> length (history w) \<longrightarrow>
      history (updateWalletHistory w b t) = tl (history w) @ [\<lparr>date = t, balance = b\<rparr>]"
    using history_append_evict [of w t b] by blast
  from fields newest test replace over append evict store show ?thesis
    by blast
qed

theorem updateWalletHistory_replaces_or_appends_witness:
  "hasEntryForToday (walletWith week) ''2024-01-07T09:30:00.000Z'' \<and>
   length (history (walletWith week)) \<le> 7 \<and>
   split_T_0 (date (last (history (walletWith week)))) = split_T_0 ''2024-01-07T09:30:00.000Z'' \<and>
   history (updateWalletHistory (walletWith week) 75 ''2024-01-07T09:30:00.000Z'') =
     butlast week @ [\<lparr>date = ''2024-01-07T09:30:00.000Z'', balance = 75\<rparr>] \<and>
   length (history (updateWalletHistory (walletWith week) 75 ''2024-01-07T09:30:00.000Z'')) = 7 \<and>
   hasEntryForToday (walletWith (week @ [\<lparr>date = ''2024-01-08T08:00:00.000Z'', balance = 80\<rparr>]))
     ''2024-01-08T09:30:00.000Z'' \<and>
   7 < length (history (walletWith (week @ [\<lparr>date = ''2024-01-08T08:00:00.000Z'', balance = 80\<rparr>]))) \<and>
   history (updateWalletHistory
       (walletWith (week @ [\<lparr>date = ''2024-01-08T08:00:00.000Z'', balance = 80\<rparr>]))
       85 ''2024-01-08T09:30:00.000Z'') =
     tl week @ [\<lparr>date = ''2024-01-08T09:30:00.000Z'', balance = 85\<rparr>] \<and>
   \<not> hasEntryForToday (walletWith (tl week)) ''2024-01-08T08:00:00.000Z'' \<and>
   length (history (walletWith (tl week))) < 7 \<and>
   history (updateWalletHistory (walletWith (tl week)) 80 ''2024-01-08T08:00:00.000Z'') =
     tl week @ [\<lparr>date = ''2024-01-08T08:00:00.000Z'', balance = 80\<rparr>] \<and>
   \<not> hasEntryForToday (walletWith week) ''2024-01-08T08:00:00.000Z'' \<and>
   7 \<le> length (history (walletWith week)) \<and>
   history (updateWalletHistory (walletWith week) 80 ''2024-01-08T08:00:00.000Z'') =
     tl week @ [\<lparr>date = ''2024-01-08T08:00:00.000Z'', balance = 80\<rparr>] \<and>
   wallet_of [week] (objectAt 0) = Some (walletWith week) \<and>
   (\<exists>obj' st'. updateWalletHistory_store [week] (objectAt 0) 80 ''2024-01-08T08:00:00.000Z'' =
        Inr (obj', st') \<and>
      take 1 st' = [week] \<and> wallet_of st' (objectAt 0) = Some (walletWith week) \<and>
      wallet_of st' obj' =
        Some (updateWalletHistory (walletWith week) 80 ''2024-01-08T08:00:00.000Z''))"
proof -
  let ?week8 = "week @ [\<lparr>date = ''2024-01-08T08:00:00.000Z'', balance = 80\<rparr>]"
  have same: "hasEntryForToday (walletWith week) ''2024-01-07T09:30:00.000Z''"
    by (simp add: hasEntryForToday_def walletWith_def week_def startsWith_def split_T_0_def)
  have same8: "hasEntryForToday (walletWith ?week8) ''2024-01-08T09:30:00.000Z''"
    by (simp add: hasEntryForToday_def walletWith_def week_def startsWith_def split_T_0_def)
  have other6: "\<not> hasEntryForToday (walletWith (tl week)) ''2024-01-08T08:00:00.000Z''"
    by (simp add: hasEntryForToday_def walletWith_def week_def startsWith_def split_T_0_def)
  have other7: "\<not> hasEntryForToday (walletWith week) ''2024-01-08T08:00:00.000Z''"
    by (simp add: hasEntryForToday_def walletWith_def week_def startsWith_def split_T_0_def)
  have len: "length (history (walletWith week)) = 7" "length (history (walletWith (tl week))) = 6"
    "history (walletWith week) = week" "history (walletWith (tl week)) = tl week"
    "length (history (walletWith ?week8)) = 8" "history (walletWith ?week8) = ?week8"
    by (simp_all add: walletWith_def week_def)
  have obj: "wallet_of [week] (objectAt 0) = Some (walletWith week)"
    by (simp add: wallet_of_def deref_def objectAt_def walletWith_def)
  have dates: "split_T_0 (date (last (history (walletWith week)))) =
               split_T_0 ''2024-01-07T09:30:00.000Z''"
    by (simp add: walletWith_def week_def split_T_0_def)
  have lw: "length week = 7" "length (tl week) = 6"
    by (simp_all add: week_def)
  have ne: "week \<noteq> []"
    by (simp add: week_def)
  note a = updateWalletHistory_replaces_or_appends
            [of "walletWith week" 75 "''2024-01-07T09:30:00.000Z''" "[week]" "objectAt 0"]
  note b = updateWalletHistory_replaces_or_appends
            [of "walletWith (tl week)" 80 "''2024-01-08T08:00:00.000Z''" "[week]" "objectAt 0"]
  note c = updateWalletHistory_replaces_or_appends
            [of "walletWith week" 80 "''2024-01-08T08:00:00.000Z''" "[week]" "objectAt 0"]
  note d = updateWalletHistory_replaces_or_appends
            [of "walletWith ?week8" 85 "''2024-01-08T09:30:00.000Z''" "[week]" "objectAt 0"]
  from a same have r1:
    "history (updateWalletHistory (walletWith week) 75 ''2024-01-07T09:30:00.000Z'') =
       butlast week @ [\<lparr>date = ''2024-01-07T09:30:00.000Z'', balance = 75\<rparr>]"
    "length (history (updateWalletHistory (walletWith week) 75 ''2024-01-07T09:30:00.000Z'')) = 7"
    by (simp_all add: len lw)
  from b other6 have r2:
    "history (updateWalletHistory (walletWith (tl week)) 80 ''2024-01-08T08:00:00.000Z'') =
       tl week @ [\<lparr>date = ''2024-01-08T08:00:00.000Z'', balance = 80\<rparr>]"
    by (simp add: len lw)
  from c other7 have r3:
    "history (updateWalletHistory (walletWith week) 80 ''2024-01-08T08:00:00.000Z'') =
       tl week @ [\<lparr>date = ''2024-01-08T08:00:00.000Z'', balance = 80\<rparr>]"
    by (simp add: len lw)
  from c obj have r4:
    "\<exists>obj' st'. updateWalletHistory_store [week] (objectAt 0) 80 ''2024-01-08T08:00:00.000Z'' =
        Inr (obj', st') \<and>
      take 1 st' = [week] \<and> wallet_of st' (objectAt 0) = Some (walletWith week) \<and>
      wallet_of st' obj' =
        Some (updateWalletHistory (walletWith week) 80 ''2024-01-08T08:00:00.000Z'')"
    by simp
  have l8: "7 < length (history (walletWith ?week8))"
    by (simp add: walletWith_def week_def)
  from d same8 l8 have r5raw:
    "history (updateWalletHistory (walletWith ?week8) 85 ''2024-01-08T09:30:00.000Z'') =
       tl (butlast (history (walletWith ?week8)) @
           [\<lparr>date = ''2024-01-08T09:30:00.000Z'', balance = 85\<rparr>])"
    by blast
  have hw8: "tl (butlast (history (walletWith ?week8)) @
           [\<lparr>date = ''2024-01-08T09:30:00.000Z'', balance = 85\<rparr>]) =
       tl week @ [\<lparr>date = ''2024-01-08T09:30:00.000Z'', balance = 85\<rparr>]"
    using ne by (simp add: walletWith_def)
  from r5raw have r5:
    "history (updateWalletHistory (walletWith ?week8) 85 ''2024-01-08T09:30:00.000Z'') =
       tl week @ [\<lparr>date = ''2024-01-08T09:30:00.000Z'', balance = 85\<rparr>]"
    unfolding hw8 .
  from same same8 other6 other7 obj dates r1 r2 r3 r4 r5 show ?thesis
    by (simp add: len lw)
qed

text \<open>
  Claim C4.  A history of at most 7 entries stays at most 7 entries long.  For a history
  of exactly 7 entries and an observation for which the source finds no entry of today,
  the result is the old history without its first entry, followed by the observation;
  it has exactly 7 entries; and when no two dates among the old entries and the
  observation are equal, no entry with the date of the old first entry is left.
\<close>

theorem updateWalletHistory_history_bound:
  "(length (history w) \<le> 7 \<longrightarrow> length (history (updateWalletHistory w b t)) \<le> 7) \<and>
   (length (history w) = 7 \<and> \<not> hasEntryForToday w t \<longrightarrow>
      history (updateWalletHistory w b t) = tl (history w) @ [\<lparr>date = t, balance = b\<rparr>] \<and>
      length (history (updateWalletHistory w b t)) = 7 \<and>
      (distinct (map date (history w) @ [t]) \<longrightarrow>
         date (hd (history w)) \<notin> set (map date (history (updateWalletHistory w b t)))))"
proof -
  have bound: "length (history w) \<le> 7 \<longrightarrow> length (history (updateWalletHistory w b t)) \<le> 7"
    using length_updateWalletHistory_le [of w b t] by blast
  have full: "length (history w) = 7 \<and> \<not> hasEntryForToday w t \<longrightarrow>
      history (updateWalletHistory w b t) = tl (history w) @ [\<lparr>date = t, balance = b\<rparr>] \<and>
      length (history (updateWalletHistory w b t)) = 7 \<and>
      (distinct (map date (history w) @ [t]) \<longrightarrow>
         date (hd (history w)) \<notin> set (map date (history (updateWalletHistory w b t))))"
  proof
    assume a: "length (history w) = 7 \<and> \<not> hasEntryForToday w t"
    then have h: "history (updateWalletHistory w b t) = tl (history w) @ [\<lparr>date = t, balance = b\<rparr>]"
      by (simp add: history_append_evict)
    from a obtain x xs where x: "history w = x # xs"
      by (cases "history w") auto
    have gone: "distinct (map date (history w) @ [t]) \<longrightarrow>
         date (hd (history w)) \<notin> set (map date (history (updateWalletHistory w b t)))"
      by (auto simp add: h x)
    from a h gone
    show "history (updateWalletHistory w b t) = tl (history w) @ [\<lparr>date = t, balance = b\<rparr>] \<and>
      length (history (updateWalletHistory w b t)) = 7 \<and>
      (distinct (map date (history w) @ [t]) \<longrightarrow>
         date (hd (history w)) \<notin> set (map date (history (updateWalletHistory w b t))))"
      by simp
  qed
  from bound full show ?thesis by blast
qed

theorem updateWalletHistory_history_bound_witness:
  "length (history (walletWith week)) \<le> 7 \<and>
   length (history (walletWith week)) = 7 \<and>
   \<not> hasEntryForToday (walletWith week) ''2024-01-08T08:00:00.000Z'' \<and>
   distinct (map date (history (walletWith week)) @ [''2024-01-08T08:00:00.000Z'']) \<and>
   length (history (updateWalletHistory (walletWith week) 80 ''2024-01-08T08:00:00.000Z'')) \<le> 7 \<and>
   history (updateWalletHistory (walletWith week) 80 ''2024-01-08T08:00:00.000Z'') =
     tl week @ [\<lparr>date = ''2024-01-08T08:00:00.000Z'', balance = 80\<rparr>] \<and>
   length (history (updateWalletHistory (walletWith week) 80 ''2024-01-08T08:00:00.000Z'')) = 7 \<and>
   ''2024-01-01T08:00:00.000Z'' \<notin>
     set (map date (history (updateWalletHistory (walletWith week) 80 ''2024-01-08T08:00:00.000Z'')))"
proof -
  have other: "\<not> hasEntryForToday (walletWith week) ''2024-01-08T08:00:00.000Z''"
    by (simp add: hasEntryForToday_def walletWith_def week_def startsWith_def split_T_0_def)
  have hw: "history (walletWith week) = week"
    by (simp add: walletWith_def)
  have lw: "length week = 7"
    by (simp add: week_def)
  have dist: "distinct (map date week @ [''2024-01-08T08:00:00.000Z''])"
    by (simp add: week_def)
  have first: "date (hd week) = ''2024-01-01T08:00:00.000Z''"
    by (simp add: week_def)
  have l7: "length (history (walletWith week)) = 7"
    by (simp add: hw lw)
  have dist': "distinct (map date (history (walletWith week)) @ [''2024-01-08T08:00:00.000Z''])"
    using dist by (simp only: hw)
  note a = updateWalletHistory_history_bound
             [of "walletWith week" 80 "''2024-01-08T08:00:00.000Z''"]
  have l7le: "length (history (walletWith week)) \<le> 7"
    by (simp add: hw lw)
  from a l7 l7le other dist' have r:
    "length (history (updateWalletHistory (walletWith week) 80 ''2024-01-08T08:00:00.000Z'')) \<le> 7 \<and>
     history (updateWalletHistory (walletWith week) 80 ''2024-01-08T08:00:00.000Z'') =
       tl (history (walletWith week)) @ [\<lparr>date = ''2024-01-08T08:00:00.000Z'', balance = 80\<rparr>] \<and>
     length (history (updateWalletHistory (walletWith week) 80 ''2024-01-08T08:00:00.000Z'')) = 7 \<and>
     date (hd (history (walletWith week))) \<notin>
       set (map date (history (updateWalletHistory (walletWith week) 80 ''2024-01-08T08:00:00.000Z'')))"
    by blast
  from r have r4: "date (hd (history (walletWith week))) \<notin>
     set (map date (history (updateWalletHistory (walletWith week) 80 ''2024-01-08T08:00:00.000Z'')))"
    by blast
  then have gone: "''2024-01-01T08:00:00.000Z'' \<notin>
     set (map date (history (updateWalletHistory (walletWith week) 80 ''2024-01-08T08:00:00.000Z'')))"
    unfolding hw first .
  from r have r2:
    "history (updateWalletHistory (walletWith week) 80 ''2024-01-08T08:00:00.000Z'') =
       tl (history (walletWith week)) @ [\<lparr>date = ''2024-01-08T08:00:00.000Z'', balance = 80\<rparr>]"
    by blast
  then have shape:
    "history (updateWalletHistory (walletWith week) 80 ''2024-01-08T08:00:00.000Z'') =
       tl week @ [\<lparr>date = ''2024-01-08T08:00:00.000Z'', balance = 80\<rparr>]"
    unfolding hw .
  from l7 l7le other dist' r gone shape show ?thesis
    by blast
qed

text \<open>
  Claim C10.  For every record whose history has at most 7 entries, which is every
  record of the data model (a record starts with one entry and \<open>updateWalletHistory\<close>
  keeps at most 7), a second application with the same balance and timestamp returns
  the record of the first.  In general the second application returns the same record
  exactly when the history after the first has at most 7 entries.
\<close>

theorem updateWalletHistory_idempotent:
  "(length (history w) \<le> 7 \<longrightarrow>
      updateWalletHistory (updateWalletHistory w b t) b t = updateWalletHistory w b t) \<and>
   (updateWalletHistory (updateWalletHistory w b t) b t = updateWalletHistory w b t \<longleftrightarrow>
      length (history (updateWalletHistory w b t)) \<le> 7)"
proof -
  have small: "length (history (updateWalletHistory w b t)) \<le> 7 \<Longrightarrow>
      updateWalletHistory (updateWalletHistory w b t) b t = updateWalletHistory w b t"
    by (rule updateWalletHistory_again_small)
  have large: "\<not> length (history (updateWalletHistory w b t)) \<le> 7 \<Longrightarrow>
      updateWalletHistory (updateWalletHistory w b t) b t \<noteq> updateWalletHistory w b t"
  proof
    assume big: "\<not> length (history (updateWalletHistory w b t)) \<le> 7"
      and eq: "updateWalletHistory (updateWalletHistory w b t) b t = updateWalletHistory w b t"
    from big have "7 < length (history (updateWalletHistory w b t))" by simp
    from updateWalletHistory_again_large [OF this] eq show False by simp
  qed
  have bounded: "length (history w) \<le> 7 \<Longrightarrow> length (history (updateWalletHistory w b t)) \<le> 7"
    by (rule length_updateWalletHistory_le)
  from small large bounded show ?thesis by blast
qed

theorem updateWalletHistory_idempotent_witness:
  "length (history (walletWith week)) \<le> 7 \<and>
   length (history (updateWalletHistory (walletWith week) 80 ''2024-01-08T08:00:00.000Z'')) \<le> 7 \<and>
   updateWalletHistory (updateWalletHistory (walletWith week) 80 ''2024-01-08T08:00:00.000Z'')
       80 ''2024-01-08T08:00:00.000Z'' =
     updateWalletHistory (walletWith week) 80 ''2024-01-08T08:00:00.000Z''"
proof -
  have l: "length (history (walletWith week)) \<le> 7"
    by (simp add: walletWith_def week_def)
  from l updateWalletHistory_idempotent [of "walletWith week" 80 "''2024-01-08T08:00:00.000Z''"]
  show ?thesis by blast
qed

section \<open>Properties of the WalletStore\<close>

lemma trace_emit [simp]: "trace (emit e w) = trace w @ [e]"
  by (simp add: emit_def)

lemma emit_fields [simp]:
  "local_wallets (emit e w) = local_wallets w"
  "local_last_update (emit e w) = local_last_update w"
  "cloud_wallets (emit e w) = cloud_wallets w"
  "cloud_last_update (emit e w) = cloud_last_update w"
  "wallets (emit e w) = wallets w"
  "lastUpdate (emit e w) = lastUpdate w"
  by (simp_all add: emit_def)

lemma localSetWallets_fields [simp]:
  "local_wallets (localSetWallets ws w) = Json ws"
  "trace (localSetWallets ws w) = trace w @ [LocalSetWallets ws]"
  "local_last_update (localSetWallets ws w) = local_last_update w"
  "cloud_wallets (localSetWallets ws w) = cloud_wallets w"
  "cloud_last_update (localSetWallets ws w) = cloud_last_update w"
  "wallets (localSetWallets ws w) = wallets w"
  "lastUpdate (localSetWallets ws w) = lastUpdate w"
  by (simp_all add: localSetWallets_def)

lemma saveWallets_local [simp]: "local_wallets (saveWallets ev ws w) = Json ws"
  by (simp add: saveWallets_def Let_def split: outcome.splits)

lemma saveWallets_trace:
  "trace (saveWallets ev ws w) =
     trace w @ (if supabase ev then [LocalSetWallets ws, RemoteUpsertWallets ws]
                else [LocalSetWallets ws])"
  by (simp add: saveWallets_def Let_def split: outcome.splits)

lemma saveWallets_cloud:
  "cloud_wallets (saveWallets ev ws w) =
     (if supabase ev \<and> supabase_reply ev (Suc (length (trace w))) = Done then Some ws
      else cloud_wallets w)"
  by (simp add: saveWallets_def Let_def split: outcome.splits)

lemma saveWallets_frame [simp]:
  "local_last_update (saveWallets ev ws w) = local_last_update w"
  "cloud_last_update (saveWallets ev ws w) = cloud_last_update w"
  "wallets (saveWallets ev ws w) = wallets w"
  "lastUpdate (saveWallets ev ws w) = lastUpdate w"
  by (simp_all add: saveWallets_def Let_def split: outcome.splits)

text \<open>
  Claim C8.  \<open>saveWallets\<close> has no failing result.  Whatever the remote request does, the
  local item holds the saved array afterwards.  The effects are the local write and then,
  with a client, exactly one upsert of the same array; without a client the local write
  alone.  The remote row holds the array when the upsert was carried out and is unchanged
  otherwise.
\<close>

theorem saveWallets_local_then_remote:
  "local_wallets (saveWallets ev ws w) = Json ws \<and>
   (supabase ev \<longrightarrow>
      trace (saveWallets ev ws w) = trace w @ [LocalSetWallets ws, RemoteUpsertWallets ws]) \<and>
   (\<not> supabase ev \<longrightarrow> trace (saveWallets ev ws w) = trace w @ [LocalSetWallets ws]) \<and>
   (supabase ev \<and> supabase_reply ev (Suc (length (trace w))) = Done \<longrightarrow>
      cloud_wallets (saveWallets ev ws w) = Some ws) \<and>
   (supabase ev \<and> supabase_reply ev (Suc (length (trace w))) \<noteq> Done \<longrightarrow>
      cloud_wallets (saveWallets ev ws w) = cloud_wallets w \<and>
      local_wallets (saveWallets ev ws w) = Json ws) \<and>
   (\<not> supabase ev \<longrightarrow> cloud_wallets (saveWallets ev ws w) = cloud_wallets w)"
  by (simp add: saveWallets_trace saveWallets_cloud)

theorem saveWallets_local_then_remote_witness:
  "supabase (sampleEnv True (\<lambda>n. Thrown) (\<lambda>i cs. Inl RpcError)) \<and>
   supabase_reply (sampleEnv True (\<lambda>n. Thrown) (\<lambda>i cs. Inl RpcError))
     (Suc (length (trace (sampleWorld (Json [walletA]) None (Some [walletA]) None)))) \<noteq> Done \<and>
   local_wallets (saveWallets (sampleEnv True (\<lambda>n. Thrown) (\<lambda>i cs. Inl RpcError)) [walletA, walletB]
     (sampleWorld (Json [walletA]) None (Some [walletA]) None)) = Json [walletA, walletB] \<and>
   cloud_wallets (saveWallets (sampleEnv True (\<lambda>n. Thrown) (\<lambda>i cs. Inl RpcError)) [walletA, walletB]
     (sampleWorld (Json [walletA]) None (Some [walletA]) None)) = Some [walletA] \<and>
   trace (saveWallets (sampleEnv True (\<lambda>n. Thrown) (\<lambda>i cs. Inl RpcError)) [walletA, walletB]
     (sampleWorld (Json [walletA]) None (Some [walletA]) None)) =
     [LocalSetWallets [walletA, walletB], RemoteUpsertWallets [walletA, walletB]] \<and>
   supabase_reply (sampleEnv True (\<lambda>n. Done) (\<lambda>i cs. Inl RpcError))
     (Suc (length (trace (sampleWorld (Json [walletA]) None (Some [walletA]) None)))) = Done \<and>
   cloud_wallets (saveWallets (sampleEnv True (\<lambda>n. Done) (\<lambda>i cs. Inl RpcError)) [walletA, walletB]
     (sampleWorld (Json [walletA]) None (Some [walletA]) None)) = Some [walletA, walletB] \<and>
   \<not> supabase (sampleEnv False (\<lambda>n. Done) (\<lambda>i cs. Inl RpcError)) \<and>
   trace (saveWallets (sampleEnv False (\<lambda>n. Done) (\<lambda>i cs. Inl RpcError)) [walletA, walletB]
     (sampleWorld (Json [walletA]) None (Some [walletA]) None)) =
     [LocalSetWallets [walletA, walletB]]"
  using saveWallets_local_then_remote
          [of "sampleEnv True (\<lambda>n. Thrown) (\<lambda>i cs. Inl RpcError)" "[walletA, walletB]"
              "sampleWorld (Json [walletA]) None (Some [walletA]) None"]
        saveWallets_local_then_remote
          [of "sampleEnv True (\<lambda>n. Done) (\<lambda>i cs. Inl RpcError)" "[walletA, walletB]"
              "sampleWorld (Json [walletA]) None (Some [walletA]) None"]
        saveWallets_local_then_remote
          [of "sampleEnv False (\<lambda>n. Done) (\<lambda>i cs. Inl RpcError)" "[walletA, walletB]"
              "sampleWorld (Json [walletA]) None (Some [walletA]) None"]
  by (simp add: sampleEnv_def sampleWorld_def)

lemma mergeLocal_filter:
  "mergeLocal keys ls (acc, flag) =
     (acc @ filter (\<lambda>x. toLowerCase (address x) \<notin> set keys) ls,
      flag \<or> filter (\<lambda>x. toLowerCase (address x) \<notin> set keys) ls \<noteq> [])"
  by (induction ls arbitrary: acc flag) auto

lemma getWallets_merge:
  assumes "supabase ev" and "supabase_reply ev (length (trace w)) = Done"
    and "cloud_wallets w = Some R \<or> cloud_wallets w = None \<and> R = []"
    and "local_wallets w = Json L \<or> local_wallets w = NoItem \<and> L = []"
  shows "getWallets ev w =
     (Inr (R @ localOnly R L),
      localSetWallets (R @ localOnly R L)
        (if localOnly R L \<noteq> []
         then saveWallets ev (R @ localOnly R L) (emit RemoteSelectWallets w)
         else emit RemoteSelectWallets w))"
proof (cases "L = []")
  case True
  with assms show ?thesis
    by (auto simp add: getWallets_def Let_def localOnly_def)
next
  case False
  with assms show ?thesis
    by (auto simp add: getWallets_def Let_def localOnly_def mergeLocal_filter)
qed

text \<open>
  Claim C2.  With a client, a select that is carried out (\<open>R\<close> is the remote row's value,
  or empty when there is no row) and a local item that holds a collection \<open>L\<close> (empty when
  there is no item), \<open>getWallets\<close> returns \<open>R\<close> followed by the local records whose
  lower-case address is the lower-case address of no remote record, in their local
  order; no remote record is replaced.  The merged collection is upserted (after one more
  local write, by \<open>saveWallets\<close>) exactly when a local record was appended, and the remote
  row then holds it if the upsert is carried out.  The last effect is the write of the
  merged collection to the local item, which holds it afterwards.
\<close>

theorem getWallets_reconciles:
  assumes "supabase ev" and "supabase_reply ev (length (trace w)) = Done"
    and "cloud_wallets w = Some R \<or> cloud_wallets w = None \<and> R = []"
    and "local_wallets w = Json L \<or> local_wallets w = NoItem \<and> L = []"
  shows "fst (getWallets ev w) = Inr (R @ localOnly R L) \<and>
    set (localOnly R L) =
      {x \<in> set L. \<forall>y \<in> set R. toLowerCase (address x) \<noteq> toLowerCase (address y)} \<and>
    local_wallets (snd (getWallets ev w)) = Json (R @ localOnly R L) \<and>
    trace (snd (getWallets ev w)) =
      trace w @ [RemoteSelectWallets] @
      (if localOnly R L \<noteq> []
       then [LocalSetWallets (R @ localOnly R L), RemoteUpsertWallets (R @ localOnly R L)]
       else []) @
      [LocalSetWallets (R @ localOnly R L)] \<and>
    cloud_wallets (snd (getWallets ev w)) =
      (if localOnly R L \<noteq> [] \<and> supabase_reply ev (length (trace w) + 2) = Done
       then Some (R @ localOnly R L) else cloud_wallets w)"
proof -
  let ?m = "R @ localOnly R L"
  note run = getWallets_merge [OF assms]
  have res: "fst (getWallets ev w) = Inr ?m"
    by (simp add: run)
  have news: "set (localOnly R L) =
      {x \<in> set L. \<forall>y \<in> set R. toLowerCase (address x) \<noteq> toLowerCase (address y)}"
    by (auto simp add: localOnly_def)
  have loc: "local_wallets (snd (getWallets ev w)) = Json ?m"
    by (simp add: run)
  have tr: "trace (snd (getWallets ev w)) =
      trace w @ [RemoteSelectWallets] @
      (if localOnly R L \<noteq> [] then [LocalSetWallets ?m, RemoteUpsertWallets ?m] else []) @
      [LocalSetWallets ?m]"
    using assms(1) by (simp add: run saveWallets_trace)
  have cl: "cloud_wallets (snd (getWallets ev w)) =
      (if localOnly R L \<noteq> [] \<and> supabase_reply ev (length (trace w) + 2) = Done
       then Some ?m else cloud_wallets w)"
    using assms(1) by (simp add: run saveWallets_cloud)
  from res news loc tr cl show ?thesis
    by blast
qed

lemma localOnly_sample: "localOnly [walletA, walletB] [walletB_stale, walletC] = [walletC]"
  by (simp add: localOnly_def walletA_def walletB_def walletB_stale_def walletC_def
      sampleWallet_def toLowerCase_def lowerChar_def)

theorem getWallets_reconciles_witness:
  "supabase (sampleEnv True (\<lambda>n. Done) (\<lambda>i cs. Inl RpcError)) \<and>
   supabase_reply (sampleEnv True (\<lambda>n. Done) (\<lambda>i cs. Inl RpcError))
     (length (trace (sampleWorld (Json [walletB_stale, walletC]) None
        (Some [walletA, walletB]) None))) = Done \<and>
   cloud_wallets (sampleWorld (Json [walletB_stale, walletC]) None
        (Some [walletA, walletB]) None) = Some [walletA, walletB] \<and>
   local_wallets (sampleWorld (Json [walletB_stale, walletC]) None
        (Some [walletA, walletB]) None) = Json [walletB_stale, walletC] \<and>
   fst (getWallets (sampleEnv True (\<lambda>n. Done) (\<lambda>i cs. Inl RpcError))
     (sampleWorld (Json [walletB_stale, walletC]) None (Some [walletA, walletB]) None)) =
     Inr [walletA, walletB, walletC] \<and>
   local_wallets (snd (getWallets (sampleEnv True (\<lambda>n. Done) (\<lambda>i cs. Inl RpcError))
     (sampleWorld (Json [walletB_stale, walletC]) None (Some [walletA, walletB]) None))) =
     Json [walletA, walletB, walletC] \<and>
   trace (snd (getWallets (sampleEnv True (\<lambda>n. Done) (\<lambda>i cs. Inl RpcError))
     (sampleWorld (Json [walletB_stale, walletC]) None (Some [walletA, walletB]) None))) =
     [RemoteSelectWallets, LocalSetWallets [walletA, walletB, walletC],
      RemoteUpsertWallets [walletA, walletB, walletC],
      LocalSetWallets [walletA, walletB, walletC]] \<and>
   cloud_wallets (snd (getWallets (sampleEnv True (\<lambda>n. Done) (\<lambda>i cs. Inl RpcError))
     (sampleWorld (Json [walletB_stale, walletC]) None (Some [walletA, walletB]) None))) =
     Some [walletA, walletB, walletC]"
proof -
  let ?ev = "sampleEnv True (\<lambda>n. Done) (\<lambda>i cs. Inl RpcError)"
  let ?w = "sampleWorld (Json [walletB_stale, walletC]) None (Some [walletA, walletB]) None"
  have h1: "supabase ?ev" and h2: "supabase_reply ?ev (length (trace ?w)) = Done"
    and h2': "supabase_reply ?ev (length (trace ?w) + 2) = Done"
    by (simp_all add: sampleEnv_def)
  have h3: "cloud_wallets ?w = Some [walletA, walletB] \<or>
            cloud_wallets ?w = None \<and> [walletA, walletB] = []"
    and h4: "local_wallets ?w = Json [walletB_stale, walletC] \<or>
             local_wallets ?w = NoItem \<and> [walletB_stale, walletC] = []"
    and h5: "trace ?w = []"
    by (simp_all add: sampleWorld_def)
  from getWallets_reconciles [OF h1 h2 h3 h4] h1 h2 h2' h3 h4 h5 show ?thesis
    by (simp add: localOnly_sample)
qed

section \<open>Properties of the ChainBalanceReader\<close>

lemma buildCalls_Inr:
  "buildCalls ev addrs = Inr calls \<Longrightarrow>
     length calls = length addrs \<and>
     (\<forall>c \<in> set calls. allowFailure c \<and> target c = DAI_ADDRESS)"
  by (induction addrs arbitrary: calls) (auto split: sum.splits)

lemma setAmounts_Cons:
  "setAmounts ev addrs results i (k # rest) m =
     setAmounts ev addrs results i rest (m(addrs ! (i + k) := amountOf ev (results ! k)))"
  by (simp add: setAmounts_def)

lemma forEachResult_Inr:
  "forEachResult ev addrs results i idxs m = Inr m' \<Longrightarrow>
     m' = setAmounts ev addrs results i idxs m \<and>
     (\<forall>k \<in> set idxs. k < length results \<and> amountOf ev (results ! k) \<noteq> None)"
proof (induction idxs arbitrary: m)
  case Nil
  then show ?case by (simp add: setAmounts_def)
next
  case (Cons k rest)
  from Cons.prems have inrange: "k < length results"
    by (simp split: if_splits)
  have "\<exists>v. amountOf ev (results ! k) = Some v \<and>
            forEachResult ev addrs results i rest (m(addrs ! (i + k) \<mapsto> v)) = Inr m'"
  proof (cases "success (results ! k)")
    case True
    with Cons.prems inrange obtain n where
      n: "decodeFunctionResult ev (returnData (results ! k)) = Inr n"
      and rec: "forEachResult ev addrs results i rest (m(addrs ! (i + k) \<mapsto> formatUnits18 n)) = Inr m'"
      by (auto simp add: Let_def split: sum.splits)
    from True n have "amountOf ev (results ! k) = Some (formatUnits18 n)"
      by (simp add: amountOf_def)
    with rec show ?thesis by blast
  next
    case False
    with Cons.prems inrange have
      rec: "forEachResult ev addrs results i rest (m(addrs ! (i + k) \<mapsto> 0)) = Inr m'"
      by (simp add: Let_def)
    from False have "amountOf ev (results ! k) = Some 0"
      by (simp add: amountOf_def)
    with rec show ?thesis by blast
  qed
  then obtain v where v: "amountOf ev (results ! k) = Some v"
    and rec: "forEachResult ev addrs results i rest (m(addrs ! (i + k) \<mapsto> v)) = Inr m'"
    by blast
  from Cons.IH [OF rec] have
    m': "m' = setAmounts ev addrs results i rest (m(addrs ! (i + k) \<mapsto> v))"
    and rest: "\<forall>k \<in> set rest. k < length results \<and> amountOf ev (results ! k) \<noteq> None"
    by blast+
  have "m' = setAmounts ev addrs results i (k # rest) m"
    unfolding setAmounts_Cons v by (rule m')
  moreover have "\<forall>j \<in> set (k # rest). j < length results \<and> amountOf ev (results ! j) \<noteq> None"
    using rest inrange v by simp
  ultimately show ?case by blast
qed

lemma amountAt_in_chunk:
  assumes "CHUNK_SIZE dvd i" and "k < CHUNK_SIZE"
    and "aggregate3 ev i (take CHUNK_SIZE (drop i calls)) = Inr results"
    and "k < length results"
  shows "amountAt ev calls (i + k) = amountOf ev (results ! k)"
proof -
  from assms(1) obtain q where q: "i = CHUNK_SIZE * q" by (auto simp add: dvd_def)
  from assms(2) have pos: "0 < CHUNK_SIZE" by simp
  have d: "(i + k) div CHUNK_SIZE * CHUNK_SIZE = i"
    using assms(2) pos by (simp add: q)
  have m: "(i + k) mod CHUNK_SIZE = k"
    using assms(2) by (simp add: q)
  show ?thesis
    using assms(3,4) by (simp add: amountAt_def resultAt_def d m)
qed

lemma setAmounts_chunk:
  assumes "CHUNK_SIZE dvd i" and "len \<le> CHUNK_SIZE"
    and "aggregate3 ev i (take CHUNK_SIZE (drop i calls)) = Inr results"
    and "\<forall>k \<in> set [0..<len]. k < length results"
  shows "setAmounts ev addrs results i [0..<len] m =
         setAll_amounts ev addrs calls [i..<i + len] m"
proof -
  have "[i..<i + len] = map (\<lambda>k. i + k) [0..<len]"
    using map_add_upt [of i len] by (simp add: add.commute)
  then have "setAll_amounts ev addrs calls [i..<i + len] m =
      foldl (\<lambda>m k. m(addrs ! (i + k) := amountAt ev calls (i + k))) m [0..<len]"
    by (simp add: setAll_amounts_def foldl_map)
  also have "\<dots> = foldl (\<lambda>m k. m(addrs ! (i + k) := amountOf ev (results ! k))) m [0..<len]"
  proof (rule foldl_cong [OF refl refl])
    fix a k
    assume "k \<in> set [0..<len]"
    with assms(2,4) have "k < CHUNK_SIZE" "k < length results" by auto
    with assms(1,3) have "amountAt ev calls (i + k) = amountOf ev (results ! k)"
      by (simp add: amountAt_in_chunk)
    then show "a(addrs ! (i + k) := amountAt ev calls (i + k)) =
               a(addrs ! (i + k) := amountOf ev (results ! k))"
      by simp
  qed
  finally show ?thesis by (simp add: setAmounts_def)
qed

lemma setAll_amounts_append:
  "setAll_amounts ev addrs calls (js @ ks) m =
     setAll_amounts ev addrs calls ks (setAll_amounts ev addrs calls js m)"
  by (simp add: setAll_amounts_def)

lemma fetchLoop_done:
  "\<not> i < length calls \<Longrightarrow> fetchLoop ev addrs calls i m sent = (Inr m, sent)"
  by (simp add: fetchLoop.simps)

lemma fetchLoop_step:
  assumes "i < length calls"
  shows "fetchLoop ev addrs calls i m sent =
     (case aggregate3 ev i (take CHUNK_SIZE (drop i calls)) of
        Inl e \<Rightarrow> (Inl e, sent @ [take CHUNK_SIZE (drop i calls)])
      | Inr results \<Rightarrow>
         (case forEachResult ev addrs results i
                 [0..<length (take CHUNK_SIZE (drop i calls))] m of
            Inl e \<Rightarrow> (Inl e, sent @ [take CHUNK_SIZE (drop i calls)])
          | Inr m1 \<Rightarrow>
             fetchLoop ev addrs calls (i + CHUNK_SIZE) m1
               (sent @ [take CHUNK_SIZE (drop i calls)])))"
  using assms by (subst fetchLoop.simps) (simp add: Let_def)

lemma fetchLoop_Inr:
  assumes "fetchLoop ev addrs calls i m sent = (Inr m', sent')" and "CHUNK_SIZE dvd i"
  shows "m' = setAll_amounts ev addrs calls [i..<length calls] m \<and>
         sent' = sent @ map (\<lambda>k. take CHUNK_SIZE (drop (k * CHUNK_SIZE) calls))
                          [i div CHUNK_SIZE..<(length calls + CHUNK_SIZE - 1) div CHUNK_SIZE] \<and>
         (\<forall>j. i \<le> j \<and> j < length calls \<longrightarrow> amountAt ev calls j \<noteq> None)"
  using assms
proof (induction ev addrs calls i m sent arbitrary: m' sent' rule: fetchLoop.induct)
  case (1 ev addrs calls i m sent)
  let ?n = "length calls"
  let ?chunk = "take CHUNK_SIZE (drop i calls)"
  let ?N = "(?n + CHUNK_SIZE - 1) div CHUNK_SIZE"
  from "1.prems"(2) obtain q where q: "i = CHUNK_SIZE * q" by (auto simp add: dvd_def)
  show ?case
  proof (cases "i < ?n")
    case False
    with "1.prems"(1) have eq: "m' = m" "sent' = sent"
      by (simp_all add: fetchLoop_done)
    from False have e1: "setAll_amounts ev addrs calls [i..<?n] m = m"
      by (simp add: setAll_amounts_def)
    from False have "?N \<le> i div CHUNK_SIZE"
      by (simp add: q CHUNK_SIZE_def)
    then have e2: "map (\<lambda>k. take CHUNK_SIZE (drop (k * CHUNK_SIZE) calls))
                          [i div CHUNK_SIZE..<?N] = []"
      by simp
    from False have e3: "\<forall>j. i \<le> j \<and> j < ?n \<longrightarrow> amountAt ev calls j \<noteq> None"
      by auto
    show ?thesis
      unfolding eq e1 e2 using e3 by simp
  next
    case True
    from "1.prems"(1) True obtain results where
      agg: "aggregate3 ev i ?chunk = Inr results"
      by (auto simp add: fetchLoop_step split: sum.splits)
    from "1.prems"(1) True agg obtain m1 where
      each: "forEachResult ev addrs results i [0..<length ?chunk] m = Inr m1"
      by (auto simp add: fetchLoop_step split: sum.splits)
    from "1.prems"(1) True agg each have
      rec: "fetchLoop ev addrs calls (i + CHUNK_SIZE) m1 (sent @ [?chunk]) = (Inr m', sent')"
      by (simp add: fetchLoop_step)
    from "1.prems"(2) have dvd': "CHUNK_SIZE dvd i + CHUNK_SIZE" by simp
    note IH = "1.IH" [OF True refl refl agg each rec dvd']
    let ?len = "length ?chunk"
    have len: "?len = min CHUNK_SIZE (?n - i)" by simp
    from forEachResult_Inr [OF each] have
      m1: "m1 = setAmounts ev addrs results i [0..<?len] m"
      and ok: "\<forall>k \<in> set [0..<?len]. k < length results \<and> amountOf ev (results ! k) \<noteq> None"
      by blast+
    from ok have inr: "\<forall>k \<in> set [0..<?len]. k < length results" by blast
    have lenle: "?len \<le> CHUNK_SIZE" by simp
    from setAmounts_chunk [OF "1.prems"(2) lenle agg inr]
    have m1': "m1 = setAll_amounts ev addrs calls [i..<i + ?len] m"
      by (simp only: m1)
    have tailidx: "[i + CHUNK_SIZE..<?n] = [i + ?len..<?n]"
    proof (cases "?len = CHUNK_SIZE")
      case True
      then show ?thesis by simp
    next
      case False
      with len \<open>i < ?n\<close> have "i + ?len = ?n" by (simp add: min_def split: if_splits)
      then show ?thesis by simp
    qed
    have parts: "[i..<?n] = [i..<i + ?len] @ [i + ?len..<?n]"
    proof -
      have "i + ?len \<le> ?n" using True by simp
      then show ?thesis
        by (metis le_add1 upt_add_eq_append le_Suc_ex)
    qed
    from IH have "m' = setAll_amounts ev addrs calls [i + CHUNK_SIZE..<?n] m1" by blast
    then have A: "m' = setAll_amounts ev addrs calls [i..<?n] m"
      by (simp only: tailidx m1' parts setAll_amounts_append)
    have first: "i div CHUNK_SIZE < ?N"
      using True by (simp add: q CHUNK_SIZE_def)
    have next_idx: "(i + CHUNK_SIZE) div CHUNK_SIZE = Suc (i div CHUNK_SIZE)"
      by (simp add: q CHUNK_SIZE_def)
    have back_i: "i div CHUNK_SIZE * CHUNK_SIZE = i"
      by (simp add: q CHUNK_SIZE_def)
    from first have cut: "[i div CHUNK_SIZE..<?N] = i div CHUNK_SIZE # [Suc (i div CHUNK_SIZE)..<?N]"
      by (simp add: upt_conv_Cons)
    from IH have "sent' = (sent @ [?chunk]) @
        map (\<lambda>k. take CHUNK_SIZE (drop (k * CHUNK_SIZE) calls))
            [(i + CHUNK_SIZE) div CHUNK_SIZE..<?N]"
      by blast
    moreover have "map (\<lambda>k. take CHUNK_SIZE (drop (k * CHUNK_SIZE) calls)) [i div CHUNK_SIZE..<?N] =
        ?chunk # map (\<lambda>k. take CHUNK_SIZE (drop (k * CHUNK_SIZE) calls))
                     [(i + CHUNK_SIZE) div CHUNK_SIZE..<?N]"
      unfolding next_idx by (subst cut) (simp add: back_i)
    ultimately have B: "sent' = sent @ map (\<lambda>k. take CHUNK_SIZE (drop (k * CHUNK_SIZE) calls))
                          [i div CHUNK_SIZE..<?N]"
      by simp
    have C: "\<forall>j. i \<le> j \<and> j < ?n \<longrightarrow> amountAt ev calls j \<noteq> None"
    proof (intro allI impI)
      fix j
      assume j: "i \<le> j \<and> j < ?n"
      show "amountAt ev calls j \<noteq> None"
      proof (cases "j < i + ?len")
        case True
        with j obtain k where k: "j = i + k" "k < ?len"
          by (metis add_less_cancel_left le_Suc_ex)
        with ok lenle have "k < length results" "amountOf ev (results ! k) \<noteq> None" "k < CHUNK_SIZE"
          by auto
        with amountAt_in_chunk [OF "1.prems"(2) _ agg, of k] k show ?thesis
          by simp
      next
        case False
        with j len have "i + CHUNK_SIZE \<le> j"
          by (simp add: min_def split: if_splits)
        with IH j show ?thesis by blast
      qed
    qed
    from A B C show ?thesis by blast
  qed
qed

lemma fetchLoop_sent:
  assumes "fetchLoop ev addrs calls i m sent = (r, sent')" and "CHUNK_SIZE dvd i"
  shows "\<exists>p. sent' = sent @ take p (map (\<lambda>k. take CHUNK_SIZE (drop (k * CHUNK_SIZE) calls))
                          [i div CHUNK_SIZE..<(length calls + CHUNK_SIZE - 1) div CHUNK_SIZE])"
  using assms
proof (induction ev addrs calls i m sent arbitrary: r sent' rule: fetchLoop.induct)
  case (1 ev addrs calls i m sent)
  let ?n = "length calls"
  let ?chunk = "take CHUNK_SIZE (drop i calls)"
  let ?N = "(?n + CHUNK_SIZE - 1) div CHUNK_SIZE"
  let ?f = "\<lambda>k. take CHUNK_SIZE (drop (k * CHUNK_SIZE) calls)"
  from "1.prems"(2) obtain q where q: "i = CHUNK_SIZE * q" by (auto simp add: dvd_def)
  show ?case
  proof (cases "i < ?n")
    case False
    with "1.prems"(1) have "sent' = sent"
      by (simp add: fetchLoop_done)
    then have "sent' = sent @ take 0 (map ?f [i div CHUNK_SIZE..<?N])" by simp
    then show ?thesis by blast
  next
    case True
    have first: "i div CHUNK_SIZE < ?N"
      using True by (simp add: q CHUNK_SIZE_def)
    have next_idx: "(i + CHUNK_SIZE) div CHUNK_SIZE = Suc (i div CHUNK_SIZE)"
      by (simp add: q CHUNK_SIZE_def)
    have back_i: "i div CHUNK_SIZE * CHUNK_SIZE = i"
      by (simp add: q CHUNK_SIZE_def)
    from first have cut: "[i div CHUNK_SIZE..<?N] = i div CHUNK_SIZE # [Suc (i div CHUNK_SIZE)..<?N]"
      by (simp add: upt_conv_Cons)
    have unroll: "map ?f [i div CHUNK_SIZE..<?N] =
        ?chunk # map ?f [(i + CHUNK_SIZE) div CHUNK_SIZE..<?N]"
      unfolding next_idx by (subst cut) (simp add: back_i)
    have one: "sent @ [?chunk] = sent @ take 1 (map ?f [i div CHUNK_SIZE..<?N])"
      unfolding unroll by simp
    show ?thesis
    proof (cases "aggregate3 ev i ?chunk")
      case (Inl e)
      with "1.prems"(1) True have "sent' = sent @ [?chunk]"
        by (auto simp add: fetchLoop_step)
      with one show ?thesis by metis
    next
      case (Inr results)
      show ?thesis
      proof (cases "forEachResult ev addrs results i [0..<length ?chunk] m")
        case (Inl e)
        with "1.prems"(1) True \<open>aggregate3 ev i ?chunk = Inr results\<close>
        have "sent' = sent @ [?chunk]"
          by (auto simp add: fetchLoop_step)
        with one show ?thesis by metis
      next
        case (Inr m1)
        with "1.prems"(1) True \<open>aggregate3 ev i ?chunk = Inr results\<close>
        have rec: "fetchLoop ev addrs calls (i + CHUNK_SIZE) m1 (sent @ [?chunk]) = (r, sent')"
          by (simp add: fetchLoop_step)
        from "1.prems"(2) have dvd': "CHUNK_SIZE dvd i + CHUNK_SIZE" by simp
        from "1.IH" [OF True refl refl \<open>aggregate3 ev i ?chunk = Inr results\<close> Inr rec dvd']
        obtain p where "sent' = (sent @ [?chunk]) @
            take p (map ?f [(i + CHUNK_SIZE) div CHUNK_SIZE..<?N])"
          by blast
        then have "sent' = sent @ take (Suc p) (map ?f [i div CHUNK_SIZE..<?N])"
          unfolding unroll by simp
        then show ?thesis by blast
      qed
    qed
  qed
qed

lemma forEachResult_succeeds:
  "\<forall>k \<in> set idxs. k < length results \<and> amountOf ev (results ! k) \<noteq> None \<Longrightarrow>
     \<exists>m'. forEachResult ev addrs results i idxs m = Inr m'"
proof (induction idxs arbitrary: m)
  case Nil
  then show ?case by simp
next
  case (Cons k rest)
  then have k: "k < length results" "amountOf ev (results ! k) \<noteq> None"
    and rest: "\<forall>k \<in> set rest. k < length results \<and> amountOf ev (results ! k) \<noteq> None"
    by simp_all
  show ?case
  proof (cases "success (results ! k)")
    case True
    with k(2) obtain n where "decodeFunctionResult ev (returnData (results ! k)) = Inr n"
      by (auto simp add: amountOf_def split: sum.splits)
    with True k(1) Cons.IH [OF rest] show ?thesis
      by (simp add: Let_def)
  next
    case False
    with k(1) Cons.IH [OF rest] show ?thesis
      by (simp add: Let_def)
  qed
qed

lemma amountAt_chunk_reply:
  assumes "amountAt ev calls i \<noteq> None" and "CHUNK_SIZE dvd i"
  shows "\<exists>results. aggregate3 ev i (take CHUNK_SIZE (drop i calls)) = Inr results"
proof -
  from assms(2) obtain q where q: "i = CHUNK_SIZE * q" by (auto simp add: dvd_def)
  have "i div CHUNK_SIZE * CHUNK_SIZE = i" by (simp add: q CHUNK_SIZE_def)
  with assms(1) show ?thesis
    by (auto simp add: amountAt_def resultAt_def Let_def split: sum.splits)
qed

lemma fetchLoop_succeeds:
  assumes "\<forall>j. i \<le> j \<and> j < length calls \<longrightarrow> amountAt ev calls j \<noteq> None"
    and "CHUNK_SIZE dvd i"
  shows "\<exists>m' sent'. fetchLoop ev addrs calls i m sent = (Inr m', sent')"
  using assms
proof (induction ev addrs calls i m sent rule: fetchLoop.induct)
  case (1 ev addrs calls i m sent)
  let ?n = "length calls"
  let ?chunk = "take CHUNK_SIZE (drop i calls)"
  show ?case
  proof (cases "i < ?n")
    case False
    then show ?thesis by (simp add: fetchLoop_done)
  next
    case True
    with "1.prems"(1) have "amountAt ev calls i \<noteq> None" by simp
    from amountAt_chunk_reply [OF this "1.prems"(2)] obtain results where
      agg: "aggregate3 ev i ?chunk = Inr results" by blast
    have ok: "\<forall>k \<in> set [0..<length ?chunk]. k < length results \<and> amountOf ev (results ! k) \<noteq> None"
    proof
      fix k
      assume "k \<in> set [0..<length ?chunk]"
      then have k: "k < CHUNK_SIZE" "i + k < ?n" by auto
      with "1.prems"(1) have some: "amountAt ev calls (i + k) \<noteq> None" by simp
      from "1.prems"(2) obtain q where q: "i = CHUNK_SIZE * q" by (auto simp add: dvd_def)
      have d: "(i + k) div CHUNK_SIZE * CHUNK_SIZE = i"
        using k(1) by (simp add: q)
      have md: "(i + k) mod CHUNK_SIZE = k"
        using k(1) by (simp add: q)
      from some agg have inr: "k < length results"
        by (auto simp add: amountAt_def resultAt_def d md split: if_splits)
      with amountAt_in_chunk [OF "1.prems"(2) k(1) agg] some
      show "k < length results \<and> amountOf ev (results ! k) \<noteq> None"
        by simp
    qed
    from forEachResult_succeeds [OF ok] obtain m1 where
      each: "forEachResult ev addrs results i [0..<length ?chunk] m = Inr m1" by blast
    from "1.prems"(2) have dvd': "CHUNK_SIZE dvd i + CHUNK_SIZE" by simp
    from "1.prems"(1) have later:
      "\<forall>j. i + CHUNK_SIZE \<le> j \<and> j < ?n \<longrightarrow> amountAt ev calls j \<noteq> None"
      by simp
    from "1.IH" [OF True refl refl agg each later dvd'] True agg each
    show ?thesis
      by (simp add: fetchLoop_step)
  qed
qed

lemma setAll_amounts_Suc:
  "setAll_amounts ev addrs calls [0..<Suc n] m =
     (setAll_amounts ev addrs calls [0..<n] m)(addrs ! n := amountAt ev calls n)"
  by (simp add: setAll_amounts_def)

lemma dom_setAll_amounts:
  "\<forall>j<n. amountAt ev calls j \<noteq> None \<Longrightarrow>
     dom (setAll_amounts ev addrs calls [0..<n] m) = dom m \<union> {addrs ! j |j. j < n}"
proof (induction n)
  case 0
  then show ?case by (simp add: setAll_amounts_def)
next
  case (Suc n)
  then have IH: "dom (setAll_amounts ev addrs calls [0..<n] m) = dom m \<union> {addrs ! j |j. j < n}"
    and some: "amountAt ev calls n \<noteq> None"
    by simp_all
  from some obtain v where v: "amountAt ev calls n = Some v" by auto
  have "dom (setAll_amounts ev addrs calls [0..<Suc n] m) =
        insert (addrs ! n) (dom (setAll_amounts ev addrs calls [0..<n] m))"
    unfolding setAll_amounts_Suc v by simp
  also have "\<dots> = insert (addrs ! n) (dom m \<union> {addrs ! j |j. j < n})"
    unfolding IH ..
  also have "\<dots> = dom m \<union> {addrs ! j |j. j < Suc n}"
    by (auto simp add: less_Suc_eq)
  finally show ?case .
qed

lemma setAll_amounts_last_write:
  assumes "j < n" and "\<forall>j'. j < j' \<and> j' < n \<longrightarrow> addrs ! j' \<noteq> addrs ! j"
  shows "setAll_amounts ev addrs calls [0..<n] m (addrs ! j) = amountAt ev calls j"
  using assms
proof (induction n)
  case 0
  then show ?case by simp
next
  case (Suc n)
  show ?case
  proof (cases "j = n")
    case True
    then show ?thesis
      by (simp add: setAll_amounts_Suc del: upt_Suc)
  next
    case False
    with Suc.prems have lt: "j < n" and other: "addrs ! n \<noteq> addrs ! j"
      and rest: "\<forall>j'. j < j' \<and> j' < n \<longrightarrow> addrs ! j' \<noteq> addrs ! j"
      by auto
    from Suc.IH [OF lt rest] other show ?thesis
      by (simp add: setAll_amounts_Suc del: upt_Suc)
  qed
qed

lemma chunksOf_from_zero:
  "map (\<lambda>k. take CHUNK_SIZE (drop (k * CHUNK_SIZE) calls))
       [0 div CHUNK_SIZE..<(length calls + CHUNK_SIZE - 1) div CHUNK_SIZE] = chunksOf calls"
  by (simp add: chunksOf_def)

text \<open>What a successful fetch returns, and when a fetch is successful.\<close>

lemma fetchBalancesBatch_Inr:
  assumes "fetchBalancesBatch ev addresses = (Inr m, sent)"
  shows "\<exists>calls. buildCalls ev addresses = Inr calls \<and> length calls = length addresses \<and>
           m = setAll_amounts ev addresses calls [0..<length addresses] Map.empty \<and>
           sent = chunksOf calls \<and>
           (\<forall>j<length addresses. amountAt ev calls j \<noteq> None)"
proof (cases "addresses = []")
  case True
  with assms show ?thesis
    by (simp add: fetchBalancesBatch_def setAll_amounts_def chunksOf_def CHUNK_SIZE_def)
next
  case False
  with assms obtain calls where calls: "buildCalls ev addresses = Inr calls"
    and loop: "fetchLoop ev addresses calls 0 Map.empty [] = (Inr m, sent)"
    by (auto simp add: fetchBalancesBatch_def split: sum.splits)
  from buildCalls_Inr [OF calls] have len: "length calls = length addresses" by blast
  have z: "CHUNK_SIZE dvd 0" by simp
  from fetchLoop_Inr [OF loop z] have
    "m = setAll_amounts ev addresses calls [0..<length calls] Map.empty"
    "sent = [] @ map (\<lambda>k. take CHUNK_SIZE (drop (k * CHUNK_SIZE) calls))
       [0 div CHUNK_SIZE..<(length calls + CHUNK_SIZE - 1) div CHUNK_SIZE]"
    "\<forall>j. 0 \<le> j \<and> j < length calls \<longrightarrow> amountAt ev calls j \<noteq> None"
    by blast+
  with calls len show ?thesis
    unfolding chunksOf_from_zero by simp
qed

lemma fetchBalancesBatch_succeeds:
  assumes "buildCalls ev addresses = Inr calls"
    and "\<forall>j<length addresses. amountAt ev calls j \<noteq> None"
  shows "\<exists>m sent. fetchBalancesBatch ev addresses = (Inr m, sent)"
proof (cases "addresses = []")
  case True
  then show ?thesis by (simp add: fetchBalancesBatch_def)
next
  case False
  from buildCalls_Inr [OF assms(1)] have len: "length calls = length addresses" by blast
  with assms(2) have all: "\<forall>j. 0 \<le> j \<and> j < length calls \<longrightarrow> amountAt ev calls j \<noteq> None"
    by simp
  have z: "CHUNK_SIZE dvd 0" by simp
  from fetchLoop_succeeds [OF all z, of addresses Map.empty "[]"] False assms(1)
  show ?thesis
    by (simp add: fetchBalancesBatch_def)
qed

lemma fetchBalancesBatch_sent:
  assumes "fetchBalancesBatch ev addresses = (r, sent)"
    and "buildCalls ev addresses = Inr calls"
  shows "\<exists>p. sent = take p (chunksOf calls)"
proof (cases "addresses = []")
  case True
  with assms(1) have "sent = take 0 (chunksOf calls)"
    by (simp add: fetchBalancesBatch_def)
  then show ?thesis by blast
next
  case False
  with assms have loop: "fetchLoop ev addresses calls 0 Map.empty [] = (r, sent)"
    by (simp add: fetchBalancesBatch_def)
  have z: "CHUNK_SIZE dvd 0" by simp
  from fetchLoop_sent [OF loop z] show ?thesis
    unfolding chunksOf_from_zero by simp
qed

lemma chunksOf_lengths:
  "c \<in> set (chunksOf xs) \<Longrightarrow> 0 < length c \<and> length c \<le> CHUNK_SIZE \<and> set c \<subseteq> set xs"
proof -
  assume "c \<in> set (chunksOf xs)"
  then obtain k where k: "k < (length xs + CHUNK_SIZE - 1) div CHUNK_SIZE"
    and c: "c = take CHUNK_SIZE (drop (k * CHUNK_SIZE) xs)"
    by (auto simp add: chunksOf_def)
  from k have "k * CHUNK_SIZE < length xs"
    by (simp add: CHUNK_SIZE_def)
  with c have "0 < length c" by (simp add: CHUNK_SIZE_def)
  moreover from c have "length c \<le> CHUNK_SIZE" by simp
  moreover from c have "set c \<subseteq> set xs"
    by (metis set_drop_subset set_take_subset subset_trans)
  ultimately show ?thesis by blast
qed

subsection \<open>Claims about fetchBalancesBatch\<close>

text \<open>
  Claim C6.  An empty input gives the empty mapping and no call of the aggregator.  The
  mapping of a successful fetch is defined on exactly the input addresses.  For an
  address that does not occur again later in the input (every address of a
  duplicate-free input), the aggregator returned a result for its sub-call, and the
  address maps to the decoded amount with 18 decimals when that result is successful
  and to zero when it is not.  (A repeated address maps to the amount of its last
  sub-call.)
\<close>

theorem fetchBalancesBatch_mapping:
  "fetchBalancesBatch ev [] = (Inr Map.empty, []) \<and>
   (fetchBalancesBatch ev addresses = (Inr m, sent) \<longrightarrow>
      dom m = set addresses \<and>
      (\<exists>calls. buildCalls ev addresses = Inr calls \<and>
         (\<forall>j<length addresses.
            (\<forall>j'. j < j' \<and> j' < length addresses \<longrightarrow> addresses ! j' \<noteq> addresses ! j) \<longrightarrow>
            (\<exists>r. resultAt ev calls j = Some r \<and>
               (if success r
                then \<exists>n. decodeFunctionResult ev (returnData r) = Inr n \<and>
                         m (addresses ! j) = Some (formatUnits18 n)
                else m (addresses ! j) = Some 0)))))"
proof -
  have empty: "fetchBalancesBatch ev [] = (Inr Map.empty, [])"
    by (simp add: fetchBalancesBatch_def)
  have full: "fetchBalancesBatch ev addresses = (Inr m, sent) \<longrightarrow>
      dom m = set addresses \<and>
      (\<exists>calls. buildCalls ev addresses = Inr calls \<and>
         (\<forall>j<length addresses.
            (\<forall>j'. j < j' \<and> j' < length addresses \<longrightarrow> addresses ! j' \<noteq> addresses ! j) \<longrightarrow>
            (\<exists>r. resultAt ev calls j = Some r \<and>
               (if success r
                then \<exists>n. decodeFunctionResult ev (returnData r) = Inr n \<and>
                         m (addresses ! j) = Some (formatUnits18 n)
                else m (addresses ! j) = Some 0))))"
  proof
    assume run: "fetchBalancesBatch ev addresses = (Inr m, sent)"
    from fetchBalancesBatch_Inr [OF run] obtain calls where
      calls: "buildCalls ev addresses = Inr calls"
      and m: "m = setAll_amounts ev addresses calls [0..<length addresses] Map.empty"
      and some: "\<forall>j<length addresses. amountAt ev calls j \<noteq> None"
      by blast
    have "dom m = {addresses ! j |j. j < length addresses}"
      unfolding m using dom_setAll_amounts [OF some, of addresses Map.empty] by simp
    then have d: "dom m = set addresses"
      by (simp add: set_conv_nth)
    have v: "\<forall>j<length addresses.
            (\<forall>j'. j < j' \<and> j' < length addresses \<longrightarrow> addresses ! j' \<noteq> addresses ! j) \<longrightarrow>
            (\<exists>r. resultAt ev calls j = Some r \<and>
               (if success r
                then \<exists>n. decodeFunctionResult ev (returnData r) = Inr n \<and>
                         m (addresses ! j) = Some (formatUnits18 n)
                else m (addresses ! j) = Some 0))"
    proof (intro allI impI)
      fix j
      assume j: "j < length addresses"
        and last: "\<forall>j'. j < j' \<and> j' < length addresses \<longrightarrow> addresses ! j' \<noteq> addresses ! j"
      from setAll_amounts_last_write [OF j last, of ev calls Map.empty]
      have mj: "m (addresses ! j) = amountAt ev calls j"
        by (simp only: m)
      from some j have "amountAt ev calls j \<noteq> None" by blast
      then obtain r where r: "resultAt ev calls j = Some r" and a: "amountOf ev r \<noteq> None"
        and eq: "amountAt ev calls j = amountOf ev r"
        by (auto simp add: amountAt_def split: option.splits)
      show "\<exists>r. resultAt ev calls j = Some r \<and>
               (if success r
                then \<exists>n. decodeFunctionResult ev (returnData r) = Inr n \<and>
                         m (addresses ! j) = Some (formatUnits18 n)
                else m (addresses ! j) = Some 0)"
      proof (cases "success r")
        case True
        with a obtain n where n: "decodeFunctionResult ev (returnData r) = Inr n"
          by (auto simp add: amountOf_def split: sum.splits)
        with True have "amountOf ev r = Some (formatUnits18 n)"
          by (simp add: amountOf_def)
        with mj eq r n True show ?thesis by simp
      next
        case False
        then have "amountOf ev r = Some 0" by (simp add: amountOf_def)
        with mj eq r False show ?thesis by simp
      qed
    qed
    from d calls v show "dom m = set addresses \<and>
      (\<exists>calls. buildCalls ev addresses = Inr calls \<and>
         (\<forall>j<length addresses.
            (\<forall>j'. j < j' \<and> j' < length addresses \<longrightarrow> addresses ! j' \<noteq> addresses ! j) \<longrightarrow>
            (\<exists>r. resultAt ev calls j = Some r \<and>
               (if success r
                then \<exists>n. decodeFunctionResult ev (returnData r) = Inr n \<and>
                         m (addresses ! j) = Some (formatUnits18 n)
                else m (addresses ! j) = Some 0))))"
      by blast
  qed
  from empty full show ?thesis by blast
qed

lemma decode_oneDai: "decode_uint256 oneDai = Inr (10 ^ 18)"
  by (simp add: decode_uint256_def oneDai_def)

lemma calls_sample:
  "buildCalls (sampleEnv False (\<lambda>n. Done) firstOnly) [addrA, addrB] = Inr callsAB"
  by (simp add: sampleEnv_def callsAB_def)

lemma fetch_sample:
  "fetchBalancesBatch (sampleEnv False (\<lambda>n. Done) firstOnly) [addrA, addrB] =
     (Inr [addrA \<mapsto> 1, addrB \<mapsto> 0], [callsAB])"
proof -
  let ?ev = "sampleEnv False (\<lambda>n. Done) firstOnly"
  have chunk: "take CHUNK_SIZE (drop 0 callsAB) = callsAB" and len: "length callsAB = 2"
    by (simp_all add: callsAB_def CHUNK_SIZE_def)
  have idx: "[0..<2] = [0, Suc 0]"
    by (simp add: numeral_2_eq_2)
  have agg: "aggregate3 ?ev 0 callsAB =
      Inr [\<lparr>success = True, returnData = oneDai\<rparr>, \<lparr>success = False, returnData = []\<rparr>]"
    by (simp add: sampleEnv_def firstOnly_def len idx)
  have dec: "decodeFunctionResult ?ev oneDai = Inr (10 ^ 18)"
    by (simp add: sampleEnv_def decode_oneDai)
  have loop: "fetchLoop ?ev [addrA, addrB] callsAB 0 Map.empty [] =
      (Inr [addrA \<mapsto> 1, addrB \<mapsto> 0], [callsAB])"
    by (subst fetchLoop_step)
       (simp_all add: chunk len idx agg dec formatUnits18_def fetchLoop_done CHUNK_SIZE_def)
  show ?thesis
    unfolding fetchBalancesBatch_def calls_sample by (simp add: loop)
qed

theorem fetchBalancesBatch_mapping_witness:
  "fetchBalancesBatch (sampleEnv False (\<lambda>n. Done) firstOnly) [addrA, addrB] =
     (Inr [addrA \<mapsto> 1, addrB \<mapsto> 0], [callsAB]) \<and>
   dom [addrA \<mapsto> 1::real, addrB \<mapsto> 0] = set [addrA, addrB] \<and>
   addrA \<noteq> addrB \<and>
   aggregate3 (sampleEnv False (\<lambda>n. Done) firstOnly) 0 callsAB =
     Inr [\<lparr>success = True, returnData = oneDai\<rparr>, \<lparr>success = False, returnData = []\<rparr>] \<and>
   decodeFunctionResult (sampleEnv False (\<lambda>n. Done) firstOnly) oneDai = Inr (10 ^ 18) \<and>
   formatUnits18 (10 ^ 18) = 1 \<and>
   [addrA \<mapsto> 1::real, addrB \<mapsto> 0] addrA = Some 1 \<and>
   [addrA \<mapsto> 1::real, addrB \<mapsto> 0] addrB = Some 0 \<and>
   fetchBalancesBatch (sampleEnv False (\<lambda>n. Done) firstOnly) [] = (Inr Map.empty, [])"
proof -
  let ?ev = "sampleEnv False (\<lambda>n. Done) firstOnly"
  note t = fetchBalancesBatch_mapping
             [of ?ev "[addrA, addrB]" "[addrA \<mapsto> 1, addrB \<mapsto> 0]" "[callsAB]"]
  from t fetch_sample have d: "dom [addrA \<mapsto> 1::real, addrB \<mapsto> 0] = set [addrA, addrB]"
    by blast
  from t have e: "fetchBalancesBatch ?ev [] = (Inr Map.empty, [])"
    by blast
  have ab: "addrA \<noteq> addrB"
    by (simp add: addrA_def addrB_def)
  have agg: "aggregate3 ?ev 0 callsAB =
      Inr [\<lparr>success = True, returnData = oneDai\<rparr>, \<lparr>success = False, returnData = []\<rparr>]"
    by (simp add: sampleEnv_def firstOnly_def callsAB_def numeral_2_eq_2)
  have dec: "decodeFunctionResult ?ev oneDai = Inr (10 ^ 18)"
    by (simp add: sampleEnv_def decode_oneDai)
  have one: "formatUnits18 (10 ^ 18) = 1"
    by (simp add: formatUnits18_def)
  from ab have va: "[addrA \<mapsto> 1::real, addrB \<mapsto> 0] addrA = Some 1"
    and vb: "[addrA \<mapsto> 1::real, addrB \<mapsto> 0] addrB = Some 0"
    by simp_all
  from fetch_sample d ab agg dec one va vb e show ?thesis
    by blast
qed

lemma concat_chunks_take:
  "concat (map (\<lambda>k. take CHUNK_SIZE (drop (k * CHUNK_SIZE) xs)) [0..<N]) =
     take (N * CHUNK_SIZE) xs"
proof (induction N)
  case 0
  then show ?case by simp
next
  case (Suc N)
  have "take (N * CHUNK_SIZE) xs @ take CHUNK_SIZE (drop (N * CHUNK_SIZE) xs) =
        take (N * CHUNK_SIZE + CHUNK_SIZE) xs"
    by (simp add: take_add)
  with Suc show ?case
    by (simp add: add.commute)
qed

lemma concat_chunksOf: "concat (chunksOf xs) = xs"
proof -
  have "length xs \<le> (length xs + CHUNK_SIZE - 1) div CHUNK_SIZE * CHUNK_SIZE"
    by (simp add: CHUNK_SIZE_def)
  then show ?thesis
    unfolding chunksOf_def concat_chunks_take by simp
qed

lemma length_chunksOf: "length (chunksOf xs) = (length xs + 99) div 100"
  by (simp add: chunksOf_def CHUNK_SIZE_def)

lemma chunksOf_250:
  assumes "length xs = 250"
  shows "map length (chunksOf xs) = [100, 100, 50]"
proof -
  have "[0..<3] = [0, 1, 2]"
    by (simp add: numeral_3_eq_3)
  with assms show ?thesis
    by (simp add: chunksOf_def CHUNK_SIZE_def)
qed

lemma fetchBalancesBatch_no_calls:
  assumes "buildCalls ev addresses = Inl e"
  shows "snd (fetchBalancesBatch ev addresses) = []"
  using assms by (simp add: fetchBalancesBatch_def)

lemma amountAt_Some_iff:
  "amountAt ev calls j \<noteq> None \<longleftrightarrow>
     (\<exists>r. resultAt ev calls j = Some r \<and>
          (success r \<longrightarrow> (\<exists>n. decodeFunctionResult ev (returnData r) = Inr n)))"
  by (auto simp add: amountAt_def amountOf_def split: option.splits sum.splits)

lemma fetchBalancesBatch_values:
  assumes "fetchBalancesBatch ev addresses = (Inr m, sent)"
    and "buildCalls ev addresses = Inr calls"
    and "j < length addresses"
    and "\<forall>j'. j < j' \<and> j' < length addresses \<longrightarrow> addresses ! j' \<noteq> addresses ! j"
  shows "\<exists>r. resultAt ev calls j = Some r \<and>
           (if success r
            then \<exists>n. decodeFunctionResult ev (returnData r) = Inr n \<and>
                     m (addresses ! j) = Some (formatUnits18 n)
            else m (addresses ! j) = Some 0)"
proof -
  from fetchBalancesBatch_Inr [OF assms(1)] assms(2) have
    m: "m = setAll_amounts ev addresses calls [0..<length addresses] Map.empty"
    and some: "\<forall>j<length addresses. amountAt ev calls j \<noteq> None"
    by auto
  from setAll_amounts_last_write [OF assms(3,4), of ev calls Map.empty]
  have mj: "m (addresses ! j) = amountAt ev calls j"
    by (simp only: m)
  from some assms(3) have "amountAt ev calls j \<noteq> None" by blast
  then obtain r where r: "resultAt ev calls j = Some r" and a: "amountOf ev r \<noteq> None"
    and eq: "amountAt ev calls j = amountOf ev r"
    by (auto simp add: amountAt_def split: option.splits)
  show ?thesis
  proof (cases "success r")
    case True
    with a obtain n where n: "decodeFunctionResult ev (returnData r) = Inr n"
      by (auto simp add: amountOf_def split: sum.splits)
    with True have "amountOf ev r = Some (formatUnits18 n)"
      by (simp add: amountOf_def)
    with mj eq r n True show ?thesis by simp
  next
    case False
    then have "amountOf ev r = Some 0" by (simp add: amountOf_def)
    with mj eq r False show ?thesis by simp
  qed
qed

lemma fetchBalancesBatch_dom:
  assumes "fetchBalancesBatch ev addresses = (Inr m, sent)"
  shows "dom m = set addresses"
proof -
  from fetchBalancesBatch_Inr [OF assms] obtain calls where
    m: "m = setAll_amounts ev addresses calls [0..<length addresses] Map.empty"
    and some: "\<forall>j<length addresses. amountAt ev calls j \<noteq> None"
    by blast
  have "dom m = {addresses ! j |j. j < length addresses}"
    unfolding m using dom_setAll_amounts [OF some, of addresses Map.empty] by simp
  then show ?thesis
    by (simp add: set_conv_nth)
qed

text \<open>
  Claim C7.  Every chunk handed to the aggregator has between 1 and 100 calls, each with
  \<open>allowFailure\<close> set and the token contract as target.  The chunks sent are the first
  chunks of the input cut into chunks of 100, in order; a successful fetch has sent all
  of them, one call of the aggregator for each, so \<open>(n + 99) div 100\<close> calls for \<open>n\<close>
  addresses and chunks of 100, 100 and 50 calls for 250 addresses.  A failed sub-call
  prevents nothing: whenever the aggregator returns a result for every call and every
  result that reports success can be decoded, the fetch is successful, its mapping is
  defined on all the addresses, and every address (not given again later) maps to the
  amount of its own sub-call, the decoded amount when that sub-call succeeded and zero
  when it failed.  In particular an address whose sub-call succeeded maps to its decoded
  amount also when another sub-call of the same chunk failed.
\<close>

theorem fetchBalancesBatch_chunks:
  "(\<forall>c \<in> set (snd (fetchBalancesBatch ev addresses)).
      0 < length c \<and> length c \<le> 100 \<and>
      (\<forall>x \<in> set c. allowFailure x \<and> target x = DAI_ADDRESS)) \<and>
   (\<forall>calls. buildCalls ev addresses = Inr calls \<longrightarrow>
      (\<exists>p. snd (fetchBalancesBatch ev addresses) = take p (chunksOf calls))) \<and>
   (\<forall>m. fst (fetchBalancesBatch ev addresses) = Inr m \<longrightarrow>
      (\<exists>calls. buildCalls ev addresses = Inr calls \<and>
         snd (fetchBalancesBatch ev addresses) = chunksOf calls \<and>
         concat (snd (fetchBalancesBatch ev addresses)) = calls \<and>
         length (snd (fetchBalancesBatch ev addresses)) = (length addresses + 99) div 100 \<and>
         (length addresses = 250 \<longrightarrow>
            map length (snd (fetchBalancesBatch ev addresses)) = [100, 100, 50]))) \<and>
   (\<forall>calls. buildCalls ev addresses = Inr calls \<and>
      (\<forall>j<length addresses. \<exists>r. resultAt ev calls j = Some r \<and>
          (success r \<longrightarrow> (\<exists>n. decodeFunctionResult ev (returnData r) = Inr n))) \<longrightarrow>
      (\<exists>m. fst (fetchBalancesBatch ev addresses) = Inr m \<and>
           dom m = set addresses \<and>
           (\<forall>j<length addresses.
              (\<forall>j'. j < j' \<and> j' < length addresses \<longrightarrow> addresses ! j' \<noteq> addresses ! j) \<longrightarrow>
              (\<exists>r. resultAt ev calls j = Some r \<and>
                 (if success r
                  then \<exists>n. decodeFunctionResult ev (returnData r) = Inr n \<and>
                           m (addresses ! j) = Some (formatUnits18 n)
                  else m (addresses ! j) = Some 0))))) \<and>
   (\<forall>m calls j k rj rk.
      fst (fetchBalancesBatch ev addresses) = Inr m \<and>
      buildCalls ev addresses = Inr calls \<and>
      j < length addresses \<and> k < length addresses \<and> j div 100 = k div 100 \<and>
      resultAt ev calls k = Some rk \<and> \<not> success rk \<and>
      resultAt ev calls j = Some rj \<and> success rj \<and>
      (\<forall>j'. j < j' \<and> j' < length addresses \<longrightarrow> addresses ! j' \<noteq> addresses ! j) \<longrightarrow>
      (\<exists>n. decodeFunctionResult ev (returnData rj) = Inr n \<and>
           m (addresses ! j) = Some (formatUnits18 n)))"
proof -
  let ?r = "fst (fetchBalancesBatch ev addresses)"
  let ?sent = "snd (fetchBalancesBatch ev addresses)"
  have run: "fetchBalancesBatch ev addresses = (?r, ?sent)" by simp
  have prefix: "\<forall>calls. buildCalls ev addresses = Inr calls \<longrightarrow>
      (\<exists>p. ?sent = take p (chunksOf calls))"
    using fetchBalancesBatch_sent [OF run] by blast
  have sizes: "\<forall>c \<in> set ?sent. 0 < length c \<and> length c \<le> 100 \<and>
      (\<forall>x \<in> set c. allowFailure x \<and> target x = DAI_ADDRESS)"
  proof (cases "buildCalls ev addresses")
    case (Inl e)
    then show ?thesis by (simp add: fetchBalancesBatch_no_calls)
  next
    case (Inr calls)
    with prefix obtain p where p: "?sent = take p (chunksOf calls)" by blast
    show ?thesis
    proof
      fix c
      assume "c \<in> set ?sent"
      with p have "c \<in> set (chunksOf calls)"
        by (metis in_set_takeD)
      from chunksOf_lengths [OF this] have
        l: "0 < length c" "length c \<le> CHUNK_SIZE" and sub: "set c \<subseteq> set calls"
        by blast+
      from buildCalls_Inr [OF Inr] sub have
        "\<forall>x \<in> set c. allowFailure x \<and> target x = DAI_ADDRESS"
        by blast
      with l show "0 < length c \<and> length c \<le> 100 \<and>
          (\<forall>x \<in> set c. allowFailure x \<and> target x = DAI_ADDRESS)"
        by (simp add: CHUNK_SIZE_def)
    qed
  qed
  have all: "\<forall>m. ?r = Inr m \<longrightarrow>
      (\<exists>calls. buildCalls ev addresses = Inr calls \<and> ?sent = chunksOf calls \<and>
         concat ?sent = calls \<and> length ?sent = (length addresses + 99) div 100 \<and>
         (length addresses = 250 \<longrightarrow> map length ?sent = [100, 100, 50]))"
  proof (intro allI impI)
    fix m
    assume "?r = Inr m"
    with run have "fetchBalancesBatch ev addresses = (Inr m, ?sent)" by simp
    from fetchBalancesBatch_Inr [OF this] obtain calls where
      calls: "buildCalls ev addresses = Inr calls" and len: "length calls = length addresses"
      and sent: "?sent = chunksOf calls"
      by blast
    have c1: "concat ?sent = calls"
      unfolding sent by (rule concat_chunksOf)
    have c2: "length ?sent = (length addresses + 99) div 100"
      unfolding sent length_chunksOf len ..
    have c3: "length addresses = 250 \<longrightarrow> map length ?sent = [100, 100, 50]"
      unfolding sent using chunksOf_250 [of calls] len by simp
    show "\<exists>calls. buildCalls ev addresses = Inr calls \<and> ?sent = chunksOf calls \<and>
         concat ?sent = calls \<and> length ?sent = (length addresses + 99) div 100 \<and>
         (length addresses = 250 \<longrightarrow> map length ?sent = [100, 100, 50])"
      by (intro exI [of _ calls] conjI calls sent c1 c2 c3)
  qed
  have tolerant: "\<forall>calls. buildCalls ev addresses = Inr calls \<and>
      (\<forall>j<length addresses. \<exists>r. resultAt ev calls j = Some r \<and>
          (success r \<longrightarrow> (\<exists>n. decodeFunctionResult ev (returnData r) = Inr n))) \<longrightarrow>
      (\<exists>m. ?r = Inr m \<and> dom m = set addresses \<and>
           (\<forall>j<length addresses.
              (\<forall>j'. j < j' \<and> j' < length addresses \<longrightarrow> addresses ! j' \<noteq> addresses ! j) \<longrightarrow>
              (\<exists>r. resultAt ev calls j = Some r \<and>
                 (if success r
                  then \<exists>n. decodeFunctionResult ev (returnData r) = Inr n \<and>
                           m (addresses ! j) = Some (formatUnits18 n)
                  else m (addresses ! j) = Some 0))))"
  proof (intro allI impI)
    fix calls
    assume a: "buildCalls ev addresses = Inr calls \<and>
      (\<forall>j<length addresses. \<exists>r. resultAt ev calls j = Some r \<and>
          (success r \<longrightarrow> (\<exists>n. decodeFunctionResult ev (returnData r) = Inr n)))"
    then have calls: "buildCalls ev addresses = Inr calls" by blast
    from a have "\<forall>j<length addresses. amountAt ev calls j \<noteq> None"
      unfolding amountAt_Some_iff by blast
    with calls fetchBalancesBatch_succeeds [of ev addresses calls]
    obtain m sent where ok: "fetchBalancesBatch ev addresses = (Inr m, sent)" by blast
    then have r: "?r = Inr m" by simp
    have d: "dom m = set addresses"
      using ok by (rule fetchBalancesBatch_dom)
    have v: "\<forall>j<length addresses.
              (\<forall>j'. j < j' \<and> j' < length addresses \<longrightarrow> addresses ! j' \<noteq> addresses ! j) \<longrightarrow>
              (\<exists>r. resultAt ev calls j = Some r \<and>
                 (if success r
                  then \<exists>n. decodeFunctionResult ev (returnData r) = Inr n \<and>
                           m (addresses ! j) = Some (formatUnits18 n)
                  else m (addresses ! j) = Some 0))"
      using fetchBalancesBatch_values [OF ok calls] by blast
    show "\<exists>m. ?r = Inr m \<and> dom m = set addresses \<and>
           (\<forall>j<length addresses.
              (\<forall>j'. j < j' \<and> j' < length addresses \<longrightarrow> addresses ! j' \<noteq> addresses ! j) \<longrightarrow>
              (\<exists>r. resultAt ev calls j = Some r \<and>
                 (if success r
                  then \<exists>n. decodeFunctionResult ev (returnData r) = Inr n \<and>
                           m (addresses ! j) = Some (formatUnits18 n)
                  else m (addresses ! j) = Some 0)))"
      by (intro exI [of _ m] conjI r d v)
  qed
  have beside: "\<forall>m calls j k rj rk.
      ?r = Inr m \<and> buildCalls ev addresses = Inr calls \<and>
      j < length addresses \<and> k < length addresses \<and> j div 100 = k div 100 \<and>
      resultAt ev calls k = Some rk \<and> \<not> success rk \<and>
      resultAt ev calls j = Some rj \<and> success rj \<and>
      (\<forall>j'. j < j' \<and> j' < length addresses \<longrightarrow> addresses ! j' \<noteq> addresses ! j) \<longrightarrow>
      (\<exists>n. decodeFunctionResult ev (returnData rj) = Inr n \<and>
           m (addresses ! j) = Some (formatUnits18 n))"
  proof (intro allI impI)
    fix m calls j k rj rk
    assume a: "?r = Inr m \<and> buildCalls ev addresses = Inr calls \<and>
      j < length addresses \<and> k < length addresses \<and> j div 100 = k div 100 \<and>
      resultAt ev calls k = Some rk \<and> \<not> success rk \<and>
      resultAt ev calls j = Some rj \<and> success rj \<and>
      (\<forall>j'. j < j' \<and> j' < length addresses \<longrightarrow> addresses ! j' \<noteq> addresses ! j)"
    with run have ok: "fetchBalancesBatch ev addresses = (Inr m, ?sent)" by simp
    from a have calls: "buildCalls ev addresses = Inr calls" and j: "j < length addresses"
      and last: "\<forall>j'. j < j' \<and> j' < length addresses \<longrightarrow> addresses ! j' \<noteq> addresses ! j"
      and rj: "resultAt ev calls j = Some rj" "success rj"
      by blast+
    from fetchBalancesBatch_values [OF ok calls j last] rj
    show "\<exists>n. decodeFunctionResult ev (returnData rj) = Inr n \<and>
           m (addresses ! j) = Some (formatUnits18 n)"
      by auto
  qed
  from sizes prefix all tolerant beside show ?thesis by blast
qed

lemma buildCalls_sampleEnv:
  "buildCalls (sampleEnv c rp agg) addrs =
     Inr (map (\<lambda>a. \<lparr>target = DAI_ADDRESS, allowFailure = True,
                       callData = [0x70, 0xa0, 0x82, 0x31] @ map of_char a\<rparr>) addrs)"
  by (induction addrs) (simp_all add: sampleEnv_def)

lemma inside_chunk:
  fixes j n :: nat
  assumes "j < n"
  shows "j mod 100 < min 100 (n - j div 100 * 100)"
proof -
  have "j div 100 * 100 + j mod 100 = j" by simp
  with assms have "j mod 100 < n - j div 100 * 100" by linarith
  moreover have "j mod 100 < 100" by simp
  ultimately show ?thesis by simp
qed

lemma resultAt_firstOnly:
  assumes "j < length calls"
  shows "resultAt (sampleEnv c rp firstOnly) calls j =
     Some (if j mod 100 = 0 then \<lparr>success = True, returnData = oneDai\<rparr>
           else \<lparr>success = False, returnData = []\<rparr>)"
proof -
  let ?i = "j div 100 * 100"
  have len: "length (take 100 (drop ?i calls)) = min 100 (length calls - ?i)"
    by simp
  from inside_chunk [OF assms] len have inside: "j mod 100 < length (take 100 (drop ?i calls))"
    by simp
  have agg: "aggregate3 (sampleEnv c rp firstOnly) ?i (take 100 (drop ?i calls)) =
     Inr (map (\<lambda>k. if k = 0 then \<lparr>success = True, returnData = oneDai\<rparr>
                     else \<lparr>success = False, returnData = []\<rparr>)
            [0..<length (take 100 (drop ?i calls))])"
    by (simp add: sampleEnv_def firstOnly_def)
  show ?thesis
    unfolding resultAt_def CHUNK_SIZE_def Let_def agg
    using inside by (simp del: length_take length_drop)
qed

theorem fetchBalancesBatch_chunks_witness:
  "length (replicate 250 addrA) = 250 \<and>
   (\<exists>calls. buildCalls (sampleEnv False (\<lambda>n. Done) firstOnly) (replicate 250 addrA) = Inr calls \<and>
      resultAt (sampleEnv False (\<lambda>n. Done) firstOnly) calls 0 =
        Some \<lparr>success = True, returnData = oneDai\<rparr> \<and>
      resultAt (sampleEnv False (\<lambda>n. Done) firstOnly) calls 1 =
        Some \<lparr>success = False, returnData = []\<rparr>) \<and>
   (\<exists>m. fst (fetchBalancesBatch (sampleEnv False (\<lambda>n. Done) firstOnly) (replicate 250 addrA)) =
      Inr m) \<and>
   map length (snd (fetchBalancesBatch (sampleEnv False (\<lambda>n. Done) firstOnly)
     (replicate 250 addrA))) = [100, 100, 50] \<and>
   buildCalls (sampleEnv False (\<lambda>n. Done) firstOnly) [addrA, addrB] = Inr callsAB \<and>
   resultAt (sampleEnv False (\<lambda>n. Done) firstOnly) callsAB 0 =
     Some \<lparr>success = True, returnData = oneDai\<rparr> \<and>
   resultAt (sampleEnv False (\<lambda>n. Done) firstOnly) callsAB 1 =
     Some \<lparr>success = False, returnData = []\<rparr> \<and>
   decodeFunctionResult (sampleEnv False (\<lambda>n. Done) firstOnly) oneDai = Inr (10 ^ 18) \<and>
   (\<exists>m. fst (fetchBalancesBatch (sampleEnv False (\<lambda>n. Done) firstOnly) [addrA, addrB]) = Inr m \<and>
        dom m = {addrA, addrB} \<and> m addrA = Some 1 \<and> m addrB = Some 0)"
proof -
  let ?ev = "sampleEnv False (\<lambda>n. Done) firstOnly"
  let ?A = "replicate 250 addrA"
  let ?calls = "map (\<lambda>a. \<lparr>target = DAI_ADDRESS, allowFailure = True,
                       callData = [0x70, 0xa0, 0x82, 0x31] @ map of_char a\<rparr>) ?A"
  note t = fetchBalancesBatch_chunks [of ?ev ?A]
  have len: "length ?A = 250" by simp
  have calls: "buildCalls ?ev ?A = Inr ?calls"
    by (rule buildCalls_sampleEnv)
  have dec: "decodeFunctionResult ?ev oneDai = Inr (10 ^ 18)"
    by (simp add: sampleEnv_def decode_oneDai)
  have each: "\<forall>j<length ?A. \<exists>r. resultAt ?ev ?calls j = Some r \<and>
          (success r \<longrightarrow> (\<exists>n. decodeFunctionResult ?ev (returnData r) = Inr n))"
  proof (intro allI impI)
    fix j
    assume "j < length ?A"
    then have "j < length ?calls" by simp
    from resultAt_firstOnly [OF this, of False "\<lambda>n. Done"] dec
    show "\<exists>r. resultAt ?ev ?calls j = Some r \<and>
          (success r \<longrightarrow> (\<exists>n. decodeFunctionResult ?ev (returnData r) = Inr n))"
      by auto
  qed
  from t calls each obtain m where m: "fst (fetchBalancesBatch ?ev ?A) = Inr m"
    by blast
  from t m len have sizes: "map length (snd (fetchBalancesBatch ?ev ?A)) = [100, 100, 50]"
    by blast
  have r0: "resultAt ?ev ?calls 0 = Some \<lparr>success = True, returnData = oneDai\<rparr>"
    using resultAt_firstOnly [of 0 ?calls False "\<lambda>n. Done"] by simp
  have r1: "resultAt ?ev ?calls 1 = Some \<lparr>success = False, returnData = []\<rparr>"
    using resultAt_firstOnly [of 1 ?calls False "\<lambda>n. Done"] by simp
  let ?B = "[addrA, addrB]"
  note u = fetchBalancesBatch_chunks [of ?ev ?B]
  have lenB: "length callsAB = 2" by (simp add: callsAB_def)
  have callsB: "buildCalls ?ev ?B = Inr callsAB"
    by (rule calls_sample)
  have s0: "resultAt ?ev callsAB 0 = Some \<lparr>success = True, returnData = oneDai\<rparr>"
    using resultAt_firstOnly [of 0 callsAB False "\<lambda>n. Done"] lenB by simp
  have s1: "resultAt ?ev callsAB 1 = Some \<lparr>success = False, returnData = []\<rparr>"
    using resultAt_firstOnly [of 1 callsAB False "\<lambda>n. Done"] lenB by simp
  have eachB: "\<forall>j<length ?B. \<exists>r. resultAt ?ev callsAB j = Some r \<and>
          (success r \<longrightarrow> (\<exists>n. decodeFunctionResult ?ev (returnData r) = Inr n))"
  proof (intro allI impI)
    fix j
    assume "j < length ?B"
    then have "j < length callsAB" by (simp add: lenB)
    from resultAt_firstOnly [OF this, of False "\<lambda>n. Done"] dec
    show "\<exists>r. resultAt ?ev callsAB j = Some r \<and>
          (success r \<longrightarrow> (\<exists>n. decodeFunctionResult ?ev (returnData r) = Inr n))"
      by auto
  qed
  from u callsB eachB obtain mB where
    mB: "fst (fetchBalancesBatch ?ev ?B) = Inr mB" and domB: "dom mB = set ?B"
    and vals: "\<forall>j<length ?B.
              (\<forall>j'. j < j' \<and> j' < length ?B \<longrightarrow> ?B ! j' \<noteq> ?B ! j) \<longrightarrow>
              (\<exists>r. resultAt ?ev callsAB j = Some r \<and>
                 (if success r
                  then \<exists>n. decodeFunctionResult ?ev (returnData r) = Inr n \<and>
                           mB (?B ! j) = Some (formatUnits18 n)
                  else mB (?B ! j) = Some 0))"
    by blast
  have ne: "addrB \<noteq> addrA" by (simp add: addrA_def addrB_def)
  have last0: "\<forall>j'. 0 < j' \<and> j' < length ?B \<longrightarrow> ?B ! j' \<noteq> ?B ! 0"
  proof (intro allI impI)
    fix j'
    assume "0 < j' \<and> j' < length ?B"
    then have "j' = 1" by simp
    with ne show "?B ! j' \<noteq> ?B ! 0" by simp
  qed
  have last1: "\<forall>j'. 1 < j' \<and> j' < length ?B \<longrightarrow> ?B ! j' \<noteq> ?B ! 1"
    by simp
  have l0: "0 < length ?B" and l1: "1 < length ?B" by simp_all
  from vals l0 last0 have "\<exists>r. resultAt ?ev callsAB 0 = Some r \<and>
                 (if success r
                  then \<exists>n. decodeFunctionResult ?ev (returnData r) = Inr n \<and>
                           mB (?B ! 0) = Some (formatUnits18 n)
                  else mB (?B ! 0) = Some 0)"
    by blast
  with s0 dec have "mB (?B ! 0) = Some (formatUnits18 (10 ^ 18))"
    by auto
  then have vA: "mB addrA = Some 1"
    by (simp add: formatUnits18_def)
  from vals l1 last1 have "\<exists>r. resultAt ?ev callsAB 1 = Some r \<and>
                 (if success r
                  then \<exists>n. decodeFunctionResult ?ev (returnData r) = Inr n \<and>
                           mB (?B ! 1) = Some (formatUnits18 n)
                  else mB (?B ! 1) = Some 0)"
    by blast
  with s1 have "mB (?B ! 1) = Some 0"
    by auto
  then have vB: "mB addrB = Some 0" by simp
  from domB have dB: "dom mB = {addrA, addrB}" by simp
  from mB dB vA vB have exB: "\<exists>m. fst (fetchBalancesBatch ?ev ?B) = Inr m \<and>
        dom m = {addrA, addrB} \<and> m addrA = Some 1 \<and> m addrB = Some 0"
    by blast
  from len calls r0 r1 m sizes have first:
    "length ?A = 250 \<and>
     (\<exists>calls. buildCalls ?ev ?A = Inr calls \<and>
        resultAt ?ev calls 0 = Some \<lparr>success = True, returnData = oneDai\<rparr> \<and>
        resultAt ?ev calls 1 = Some \<lparr>success = False, returnData = []\<rparr>) \<and>
     (\<exists>m. fst (fetchBalancesBatch ?ev ?A) = Inr m) \<and>
     map length (snd (fetchBalancesBatch ?ev ?A)) = [100, 100, 50]"
    by blast
  from first callsB s0 s1 dec exB show ?thesis
    by blast
qed

section \<open>Properties of the SyncOrchestrator\<close>

lemma emits_fields [simp]:
  "trace (emits es w) = trace w @ es"
  "local_wallets (emits es w) = local_wallets w"
  "local_last_update (emits es w) = local_last_update w"
  "cloud_wallets (emits es w) = cloud_wallets w"
  "cloud_last_update (emits es w) = cloud_last_update w"
  "wallets (emits es w) = wallets w"
  "lastUpdate (emits es w) = lastUpdate w"
  by (simp_all add: emits_def)

lemma handleSyncBalances_failed:
  assumes "fst (fetchBalancesBatch ev (map address ws)) = Inl e"
  shows "handleSyncBalances ev ws w =
     emit (Alert ''Failed to sync balances. Check console and RPC settings in Admin.'')
       (emits (map Aggregate3 (snd (fetchBalancesBatch ev (map address ws)))) w)"
proof -
  from assms have "ws \<noteq> []"
    by (auto simp add: fetchBalancesBatch_def)
  with assms show ?thesis
    by (cases "fetchBalancesBatch ev (map address ws)")
       (simp add: handleSyncBalances_def Let_def)
qed

lemma chunk_failure_propagates:
  assumes "buildCalls ev addresses = Inr calls" and "j < length addresses"
    and "aggregate3 ev (j div CHUNK_SIZE * CHUNK_SIZE)
           (take CHUNK_SIZE (drop (j div CHUNK_SIZE * CHUNK_SIZE) calls)) = Inl e"
  shows "\<exists>e'. fst (fetchBalancesBatch ev addresses) = Inl e'"
proof (cases "fst (fetchBalancesBatch ev addresses)")
  case (Inl e')
  then show ?thesis by blast
next
  case (Inr m)
  then have "fetchBalancesBatch ev addresses = (Inr m, snd (fetchBalancesBatch ev addresses))"
    by (metis prod.collapse)
  from fetchBalancesBatch_Inr [OF this] assms(1,2) have "amountAt ev calls j \<noteq> None"
    by auto
  with assms(3) show ?thesis
    by (simp add: amountAt_def resultAt_def Let_def)
qed

text \<open>
  Claim C5.  When the aggregator call for the chunk of some input address fails, the
  fetch returns an error and no mapping.  When the fetch of a sync returns an error,
  the sync changes neither item of the local storage nor either row of the remote
  store, nor the wallets and timestamp the component shows: its only effects are the
  aggregator calls made so far and the alert.
\<close>

theorem sync_aborts_on_fetch_error:
  "(buildCalls ev addresses = Inr calls \<and> j < length addresses \<and>
    aggregate3 ev (j div CHUNK_SIZE * CHUNK_SIZE)
      (take CHUNK_SIZE (drop (j div CHUNK_SIZE * CHUNK_SIZE) calls)) = Inl e \<longrightarrow>
      (\<exists>e'. fst (fetchBalancesBatch ev addresses) = Inl e')) \<and>
   (fst (fetchBalancesBatch ev (map address ws)) = Inl e \<longrightarrow>
      local_wallets (handleSyncBalances ev ws w) = local_wallets w \<and>
      local_last_update (handleSyncBalances ev ws w) = local_last_update w \<and>
      cloud_wallets (handleSyncBalances ev ws w) = cloud_wallets w \<and>
      cloud_last_update (handleSyncBalances ev ws w) = cloud_last_update w \<and>
      wallets (handleSyncBalances ev ws w) = wallets w \<and>
      lastUpdate (handleSyncBalances ev ws w) = lastUpdate w \<and>
      trace (handleSyncBalances ev ws w) =
        trace w @ map Aggregate3 (snd (fetchBalancesBatch ev (map address ws))) @
        [Alert ''Failed to sync balances. Check console and RPC settings in Admin.''])"
proof -
  have a: "buildCalls ev addresses = Inr calls \<and> j < length addresses \<and>
    aggregate3 ev (j div CHUNK_SIZE * CHUNK_SIZE)
      (take CHUNK_SIZE (drop (j div CHUNK_SIZE * CHUNK_SIZE) calls)) = Inl e \<longrightarrow>
      (\<exists>e'. fst (fetchBalancesBatch ev addresses) = Inl e')"
    using chunk_failure_propagates [of ev addresses calls j e] by blast
  have b: "fst (fetchBalancesBatch ev (map address ws)) = Inl e \<longrightarrow>
      local_wallets (handleSyncBalances ev ws w) = local_wallets w \<and>
      local_last_update (handleSyncBalances ev ws w) = local_last_update w \<and>
      cloud_wallets (handleSyncBalances ev ws w) = cloud_wallets w \<and>
      cloud_last_update (handleSyncBalances ev ws w) = cloud_last_update w \<and>
      wallets (handleSyncBalances ev ws w) = wallets w \<and>
      lastUpdate (handleSyncBalances ev ws w) = lastUpdate w \<and>
      trace (handleSyncBalances ev ws w) =
        trace w @ map Aggregate3 (snd (fetchBalancesBatch ev (map address ws))) @
        [Alert ''Failed to sync balances. Check console and RPC settings in Admin.'']"
    by (simp add: handleSyncBalances_failed)
  from a b show ?thesis by blast
qed

theorem sync_aborts_on_fetch_error_witness:
  "(\<exists>calls. buildCalls (sampleEnv True (\<lambda>n. Done) secondChunkFails)
        (map address (replicate 150 walletA)) = Inr calls \<and>
      aggregate3 (sampleEnv True (\<lambda>n. Done) secondChunkFails) (120 div CHUNK_SIZE * CHUNK_SIZE)
        (take CHUNK_SIZE (drop (120 div CHUNK_SIZE * CHUNK_SIZE) calls)) = Inl RpcError) \<and>
   (120::nat) < length (map address (replicate 150 walletA)) \<and>
   (\<exists>e'. fst (fetchBalancesBatch (sampleEnv True (\<lambda>n. Done) secondChunkFails)
        (map address (replicate 150 walletA))) = Inl e') \<and>
   local_wallets (handleSyncBalances (sampleEnv True (\<lambda>n. Done) secondChunkFails)
      (replicate 150 walletA)
      (sampleWorld (Json (replicate 150 walletA)) (Some ''2024-01-07T08:00:00.000Z'')
         (Some (replicate 150 walletA)) (Some ''2024-01-07T08:00:00.000Z''))) =
     Json (replicate 150 walletA) \<and>
   local_last_update (handleSyncBalances (sampleEnv True (\<lambda>n. Done) secondChunkFails)
      (replicate 150 walletA)
      (sampleWorld (Json (replicate 150 walletA)) (Some ''2024-01-07T08:00:00.000Z'')
         (Some (replicate 150 walletA)) (Some ''2024-01-07T08:00:00.000Z''))) =
     Some ''2024-01-07T08:00:00.000Z'' \<and>
   cloud_wallets (handleSyncBalances (sampleEnv True (\<lambda>n. Done) secondChunkFails)
      (replicate 150 walletA)
      (sampleWorld (Json (replicate 150 walletA)) (Some ''2024-01-07T08:00:00.000Z'')
         (Some (replicate 150 walletA)) (Some ''2024-01-07T08:00:00.000Z''))) =
     Some (replicate 150 walletA) \<and>
   cloud_last_update (handleSyncBalances (sampleEnv True (\<lambda>n. Done) secondChunkFails)
      (replicate 150 walletA)
      (sampleWorld (Json (replicate 150 walletA)) (Some ''2024-01-07T08:00:00.000Z'')
         (Some (replicate 150 walletA)) (Some ''2024-01-07T08:00:00.000Z''))) =
     Some ''2024-01-07T08:00:00.000Z''"
proof -
  let ?ev = "sampleEnv True (\<lambda>n. Done) secondChunkFails"
  let ?ws = "replicate 150 walletA"
  let ?w = "sampleWorld (Json ?ws) (Some ''2024-01-07T08:00:00.000Z'')
         (Some ?ws) (Some ''2024-01-07T08:00:00.000Z'')"
  let ?calls = "map (\<lambda>a. \<lparr>target = DAI_ADDRESS, allowFailure = True,
                       callData = [0x70, 0xa0, 0x82, 0x31] @ map of_char a\<rparr>)
                  (map address ?ws)"
  have calls: "buildCalls ?ev (map address ?ws) = Inr ?calls"
    by (rule buildCalls_sampleEnv)
  have off: "(120::nat) div CHUNK_SIZE * CHUNK_SIZE = 100"
    by (simp add: CHUNK_SIZE_def)
  have agg: "aggregate3 ?ev (120 div CHUNK_SIZE * CHUNK_SIZE)
        (take CHUNK_SIZE (drop (120 div CHUNK_SIZE * CHUNK_SIZE) ?calls)) = Inl RpcError"
    unfolding off by (simp add: sampleEnv_def secondChunkFails_def)
  have j: "(120::nat) < length (map address ?ws)"
    by simp
  from sync_aborts_on_fetch_error [of ?ev "map address ?ws" ?calls 120 RpcError ?ws ?w]
    calls j agg
  obtain e' where e': "fst (fetchBalancesBatch ?ev (map address ?ws)) = Inl e'"
    by blast
  from sync_aborts_on_fetch_error [of ?ev "map address ?ws" ?calls 120 e' ?ws ?w] e'
  have same: "local_wallets (handleSyncBalances ?ev ?ws ?w) = local_wallets ?w"
    "local_last_update (handleSyncBalances ?ev ?ws ?w) = local_last_update ?w"
    "cloud_wallets (handleSyncBalances ?ev ?ws ?w) = cloud_wallets ?w"
    "cloud_last_update (handleSyncBalances ?ev ?ws ?w) = cloud_last_update ?w"
    by blast+
  have init: "local_wallets ?w = Json ?ws"
    "local_last_update ?w = Some ''2024-01-07T08:00:00.000Z''"
    "cloud_wallets ?w = Some ?ws"
    "cloud_last_update ?w = Some ''2024-01-07T08:00:00.000Z''"
    by (simp_all add: sampleWorld_def)
  from calls agg have first: "\<exists>calls. buildCalls ?ev (map address ?ws) = Inr calls \<and>
      aggregate3 ?ev (120 div CHUNK_SIZE * CHUNK_SIZE)
        (take CHUNK_SIZE (drop (120 div CHUNK_SIZE * CHUNK_SIZE) calls)) = Inl RpcError"
    by blast
  from e' have second: "\<exists>e'. fst (fetchBalancesBatch ?ev (map address ?ws)) = Inl e'"
    by blast
  show ?thesis
    using first j second same unfolding init by blast
qed

lemma setLastUpdateTime_trace:
  "trace (snd (setLastUpdateTime ev t w)) =
     trace w @ (if supabase ev then [LocalSetLastUpdate t, RemoteUpsertLastUpdate t]
                else [LocalSetLastUpdate t])"
  by (simp add: setLastUpdateTime_def Let_def split: outcome.splits)

lemma handleSyncBalances_trace_grows:
  assumes "ws \<noteq> []"
  shows "length (trace w) < length (trace (handleSyncBalances ev ws w))"
proof (cases "fst (fetchBalancesBatch ev (map address ws))")
  case (Inl e)
  then show ?thesis
    by (simp add: handleSyncBalances_failed)
next
  case (Inr m)
  then obtain sent where run: "fetchBalancesBatch ev (map address ws) = (Inr m, sent)"
    by (cases "fetchBalancesBatch ev (map address ws)") simp
  let ?upd = "map (\<lambda>x. updateWalletHistory x
                 (case m (address x) of Some newBal \<Rightarrow> newBal | None \<Rightarrow> currentBalance x)
                 (nowISO ev)) ws"
  let ?w2 = "saveWallets ev ?upd ((emits (map Aggregate3 sent) w)\<lparr>wallets := ?upd\<rparr>)"
  let ?s = "setLastUpdateTime ev (nowISO ev) (?w2\<lparr>lastUpdate := Some (nowISO ev)\<rparr>)"
  have shape: "handleSyncBalances ev ws w =
      (case fst ?s of
         Inl e \<Rightarrow> emit (Alert ''Failed to sync balances. Check console and RPC settings in Admin.'') (snd ?s)
       | Inr u \<Rightarrow> snd ?s)"
    using assms by (simp add: handleSyncBalances_def run Let_def split_beta)
  have "length (trace w) < length (trace (snd ?s))"
    by (simp add: setLastUpdateTime_trace saveWallets_trace)
  then show ?thesis
    unfolding shape by (cases "fst ?s") simp_all
qed

lemma autoSyncDue_iff:
  "autoSyncDue ev lastTime \<longleftrightarrow>
     (\<exists>s t. lastTime = Some s \<and> s \<noteq> [] \<and> parseDate ev s = Some t \<and>
            86400000 < \<bar>now ev - t\<bar>)"
proof (cases lastTime)
  case None
  then show ?thesis by (simp add: autoSyncDue_def)
next
  case (Some s)
  show ?thesis
  proof (cases "parseDate ev s")
    case None
    with Some show ?thesis by (simp add: autoSyncDue_def)
  next
    case (Some t)
    have "real_of_int \<bar>now ev - t\<bar> / 3600000 > 24 \<longleftrightarrow> 86400000 < \<bar>now ev - t\<bar>"
    proof -
      have "real_of_int \<bar>now ev - t\<bar> / 3600000 > 24 \<longleftrightarrow>
            real_of_int 86400000 < real_of_int \<bar>now ev - t\<bar>"
        by (simp add: field_simps)
      also have "\<dots> \<longleftrightarrow> 86400000 < \<bar>now ev - t\<bar>"
        by (simp only: of_int_less_iff)
      finally show ?thesis .
    qed
    with Some \<open>lastTime = Some s\<close> show ?thesis
      by (simp add: autoSyncDue_def)
  qed
qed

text \<open>
  Claim C1, as amended.  The automatic refresh is due exactly when the timestamp read at
  startup is present, is not the empty text, is a date, and lies more than 24 hours (in
  either direction) from the current time.  When it is due, \<open>initData\<close> ends as
  \<open>handleSyncBalances\<close> run on the collection \<open>getWallets\<close> has just returned; when it is
  not, \<open>initData\<close> ends with the loaded collection and timestamp and does nothing more.
\<close>

theorem initData_auto_sync:
  "(autoSyncDue ev lastTime \<longleftrightarrow>
      (\<exists>s t. lastTime = Some s \<and> s \<noteq> [] \<and> parseDate ev s = Some t \<and>
             86400000 < \<bar>now ev - t\<bar>)) \<and>
   (getWallets ev w = (Inr loaded, w1) \<and>
    getLastUpdateTime ev (w1\<lparr>wallets := loaded\<rparr>) = (lastTime, w2) \<longrightarrow>
      (autoSyncDue ev lastTime \<longrightarrow>
         initData ev w = handleSyncBalances ev loaded (w2\<lparr>lastUpdate := lastTime\<rparr>)) \<and>
      (\<not> autoSyncDue ev lastTime \<longrightarrow> initData ev w = w2\<lparr>lastUpdate := lastTime\<rparr>))"
proof -
  have run: "getWallets ev w = (Inr loaded, w1) \<and>
    getLastUpdateTime ev (w1\<lparr>wallets := loaded\<rparr>) = (lastTime, w2) \<longrightarrow>
      (autoSyncDue ev lastTime \<longrightarrow>
         initData ev w = handleSyncBalances ev loaded (w2\<lparr>lastUpdate := lastTime\<rparr>)) \<and>
      (\<not> autoSyncDue ev lastTime \<longrightarrow> initData ev w = w2\<lparr>lastUpdate := lastTime\<rparr>)"
    by (simp add: initData_def Let_def)
  from autoSyncDue_iff [of ev lastTime] run show ?thesis by blast
qed

lemma getWallets_local_only:
  "\<not> supabase ev \<Longrightarrow> local_wallets w = Json ws \<Longrightarrow> getWallets ev w = (Inr ws, w)"
  by (simp add: getWallets_def localGetWallets_def)

lemma getLastUpdateTime_local_only:
  "\<not> supabase ev \<Longrightarrow> getLastUpdateTime ev w = (local_last_update w, w)"
  by (simp add: getLastUpdateTime_def)

theorem initData_auto_sync_witness:
  "autoSyncDue (sampleEnv False (\<lambda>n. Done) firstOnly) (Some ''2024-01-06T08:00:00.000Z'') \<and>
   getWallets (sampleEnv False (\<lambda>n. Done) firstOnly)
     (sampleWorld (Json [walletA]) (Some ''2024-01-06T08:00:00.000Z'') None None) =
     (Inr [walletA], sampleWorld (Json [walletA]) (Some ''2024-01-06T08:00:00.000Z'') None None) \<and>
   getLastUpdateTime (sampleEnv False (\<lambda>n. Done) firstOnly)
     ((sampleWorld (Json [walletA]) (Some ''2024-01-06T08:00:00.000Z'') None None)
        \<lparr>wallets := [walletA]\<rparr>) =
     (Some ''2024-01-06T08:00:00.000Z'',
      (sampleWorld (Json [walletA]) (Some ''2024-01-06T08:00:00.000Z'') None None)
        \<lparr>wallets := [walletA]\<rparr>) \<and>
   initData (sampleEnv False (\<lambda>n. Done) firstOnly)
     (sampleWorld (Json [walletA]) (Some ''2024-01-06T08:00:00.000Z'') None None) =
     handleSyncBalances (sampleEnv False (\<lambda>n. Done) firstOnly) [walletA]
       ((sampleWorld (Json [walletA]) (Some ''2024-01-06T08:00:00.000Z'') None None)
          \<lparr>wallets := [walletA], lastUpdate := Some ''2024-01-06T08:00:00.000Z''\<rparr>) \<and>
   \<not> autoSyncDue (sampleEnv False (\<lambda>n. Done) firstOnly) (Some ''2024-01-08T07:00:00.000Z'') \<and>
   initData (sampleEnv False (\<lambda>n. Done) firstOnly)
     (sampleWorld (Json [walletA]) (Some ''2024-01-08T07:00:00.000Z'') None None) =
     (sampleWorld (Json [walletA]) (Some ''2024-01-08T07:00:00.000Z'') None None)
       \<lparr>wallets := [walletA], lastUpdate := Some ''2024-01-08T07:00:00.000Z''\<rparr>"
proof -
  let ?ev = "sampleEnv False (\<lambda>n. Done) firstOnly"
  let ?old = "''2024-01-06T08:00:00.000Z''"
  let ?new = "''2024-01-08T07:00:00.000Z''"
  let ?w = "\<lambda>t. sampleWorld (Json [walletA]) (Some t) None None"
  have off: "\<not> supabase ?ev" by (simp add: sampleEnv_def)
  have loc: "\<And>t. local_wallets (?w t) = Json [walletA]"
    "\<And>t. local_last_update ((?w t)\<lparr>wallets := [walletA]\<rparr>) = Some t"
    by (simp_all add: sampleWorld_def)
  have g: "\<And>t. getWallets ?ev (?w t) = (Inr [walletA], ?w t)"
    using off loc(1) by (rule getWallets_local_only)
  have l: "\<And>t. getLastUpdateTime ?ev ((?w t)\<lparr>wallets := [walletA]\<rparr>) =
      (Some t, (?w t)\<lparr>wallets := [walletA]\<rparr>)"
    using getLastUpdateTime_local_only [OF off] loc(2) by simp
  have p1: "parseDate ?ev ?old = Some 1704528000000" and p2: "parseDate ?ev ?new = Some 1704697200000"
    and n: "now ?ev = 1704700800000"
    by (simp_all add: sampleEnv_def sampleDates_def)
  note a = initData_auto_sync [of ?ev "Some ?old" "?w ?old" "[walletA]" "?w ?old"
                                 "(?w ?old)\<lparr>wallets := [walletA]\<rparr>"]
  note b = initData_auto_sync [of ?ev "Some ?new" "?w ?new" "[walletA]" "?w ?new"
                                 "(?w ?new)\<lparr>wallets := [walletA]\<rparr>"]
  from a p1 n have due: "autoSyncDue ?ev (Some ?old)"
    by simp
  from b p2 n have notdue: "\<not> autoSyncDue ?ev (Some ?new)"
    by simp
  from a due g [of ?old] l [of ?old] have r1: "initData ?ev (?w ?old) =
      handleSyncBalances ?ev [walletA]
        ((?w ?old)\<lparr>wallets := [walletA], lastUpdate := Some ?old\<rparr>)"
    by simp
  from b notdue g [of ?new] l [of ?new] have r2: "initData ?ev (?w ?new) =
      (?w ?new)\<lparr>wallets := [walletA], lastUpdate := Some ?new\<rparr>"
    by simp
  from due g [of ?old] l [of ?old] r1 notdue r2 show ?thesis
    by simp
qed

text \<open>
  Claim C1 as stated fails where no timestamp is stored: with a stored wallet and no
  timestamp, \<open>initData\<close> only loads, and the result is not the one a sync of the loaded
  collection would leave.
\<close>

theorem initData_no_timestamp_counterexample:
  "getLastUpdateTime (sampleEnv False (\<lambda>n. Done) firstOnly)
     ((sampleWorld (Json [walletA]) None None None)\<lparr>wallets := [walletA]\<rparr>) =
     (None, (sampleWorld (Json [walletA]) None None None)\<lparr>wallets := [walletA]\<rparr>) \<and>
   \<not> autoSyncDue (sampleEnv False (\<lambda>n. Done) firstOnly) None \<and>
   initData (sampleEnv False (\<lambda>n. Done) firstOnly) (sampleWorld (Json [walletA]) None None None) =
     (sampleWorld (Json [walletA]) None None None)\<lparr>wallets := [walletA]\<rparr> \<and>
   trace (initData (sampleEnv False (\<lambda>n. Done) firstOnly)
     (sampleWorld (Json [walletA]) None None None)) = [] \<and>
   initData (sampleEnv False (\<lambda>n. Done) firstOnly) (sampleWorld (Json [walletA]) None None None) \<noteq>
     handleSyncBalances (sampleEnv False (\<lambda>n. Done) firstOnly) [walletA]
       ((sampleWorld (Json [walletA]) None None None)\<lparr>wallets := [walletA]\<rparr>)"
proof -
  let ?ev = "sampleEnv False (\<lambda>n. Done) firstOnly"
  let ?w = "sampleWorld (Json [walletA]) None None None"
  have off: "\<not> supabase ?ev" by (simp add: sampleEnv_def)
  have g: "getWallets ?ev ?w = (Inr [walletA], ?w)"
    using off by (rule getWallets_local_only) (simp add: sampleWorld_def)
  have l: "getLastUpdateTime ?ev (?w\<lparr>wallets := [walletA]\<rparr>) = (None, ?w\<lparr>wallets := [walletA]\<rparr>)"
    using getLastUpdateTime_local_only [OF off] by (simp add: sampleWorld_def)
  have nd: "\<not> autoSyncDue ?ev None"
    by (simp add: autoSyncDue_def)
  have "initData ?ev ?w = ?w\<lparr>wallets := [walletA], lastUpdate := None\<rparr>"
    by (simp add: initData_def g l nd)
  also have "\<dots> = ?w\<lparr>wallets := [walletA]\<rparr>"
    by (simp add: sampleWorld_def)
  finally have i: "initData ?ev ?w = ?w\<lparr>wallets := [walletA]\<rparr>" .
  have t: "trace (initData ?ev ?w) = []"
    unfolding i by (simp add: sampleWorld_def)
  have "length (trace (?w\<lparr>wallets := [walletA]\<rparr>)) <
        length (trace (handleSyncBalances ?ev [walletA] (?w\<lparr>wallets := [walletA]\<rparr>)))"
    by (rule handleSyncBalances_trace_grows) simp
  then have "trace (handleSyncBalances ?ev [walletA] (?w\<lparr>wallets := [walletA]\<rparr>)) \<noteq> []"
    by auto
  with t have ne: "initData ?ev ?w \<noteq> handleSyncBalances ?ev [walletA] (?w\<lparr>wallets := [walletA]\<rparr>)"
    by auto
  from l nd i t ne show ?thesis by blast
qed

subsection \<open>Registration\<close>








lemma setLastUpdateTime_wallets [simp]:
  "wallets (snd (setLastUpdateTime ev t w)) = wallets w"
  "local_wallets (snd (setLastUpdateTime ev t w)) = local_wallets w"
  by (simp_all add: setLastUpdateTime_def Let_def split: outcome.splits)

lemma handleUploadAddresses_Inr:
  assumes "fst (fetchBalancesBatch ev (map entry_address es)) = Inr m"
  shows "wallets (handleUploadAddresses ev es w) = uploaded ev m es w \<and>
         local_wallets (handleUploadAddresses ev es w) = Json (uploaded ev m es w)"
proof -
  from assms obtain sent where
    run: "fetchBalancesBatch ev (map entry_address es) = (Inr m, sent)"
    by (cases "fetchBalancesBatch ev (map entry_address es)") simp
  show ?thesis
    by (simp add: handleUploadAddresses_def run Let_def split_beta uploaded_def
        split: sum.splits)
qed












lemma fetch_firstOnly_succeeds:
  "\<exists>m. fst (fetchBalancesBatch (sampleEnv c rp firstOnly) addrs) = Inr m"
proof -
  let ?ev = "sampleEnv c rp firstOnly"
  let ?calls = "map (\<lambda>a. \<lparr>target = DAI_ADDRESS, allowFailure = True,
                       callData = [0x70, 0xa0, 0x82, 0x31] @ map of_char a\<rparr>) addrs"
  have calls: "buildCalls ?ev addrs = Inr ?calls"
    by (rule buildCalls_sampleEnv)
  have dec: "decodeFunctionResult ?ev oneDai = Inr (10 ^ 18)"
    by (simp add: sampleEnv_def decode_oneDai)
  have "\<forall>j<length addrs. amountAt ?ev ?calls j \<noteq> None"
  proof (intro allI impI)
    fix j
    assume "j < length addrs"
    then have "j < length ?calls" by simp
    from resultAt_firstOnly [OF this, of c rp] dec
    show "amountAt ?ev ?calls j \<noteq> None"
      by (simp add: amountAt_def amountOf_def)
  qed
  from fetchBalancesBatch_succeeds [OF calls this] show ?thesis
    by auto
qed

lemma uploaded_first:
  "uploaded ev m [e] emptyWorld = [newWallet m (fetchBlockNumber ev) (nowISO ev) 0 e 0]"
  by (simp add: uploaded_def setAll_def emptyWorld_def sampleWorld_def)



text \<open>
  Beside the claim: \<open>getWallets\<close> compares addresses by their lower-case forms, the map of
  the upload compares the texts as they are.  An address entered again in another letter
  case is therefore no key of that map yet, and the upload adds a second record for it.
\<close>

lemma handleUploadAddresses_letter_case:
  "map address (wallets (handleUploadAddresses (sampleEnv False (\<lambda>n. Done) firstOnly)
      [entryOf (toLowerCase addrX) ''B'']
      (handleUploadAddresses (sampleEnv False (\<lambda>n. Done) firstOnly)
         [entryOf addrX ''A''] emptyWorld))) = [addrX, toLowerCase addrX]"
proof -
  let ?ev = "sampleEnv False (\<lambda>n. Done) firstOnly"
  let ?A = "entryOf addrX ''A''"
  let ?B = "entryOf (toLowerCase addrX) ''B''"
  let ?w1 = "handleUploadAddresses ?ev [?A] emptyWorld"
  from fetch_firstOnly_succeeds [of False "\<lambda>n. Done" "map entry_address [?A]"] obtain m where
    m: "fst (fetchBalancesBatch ?ev (map entry_address [?A])) = Inr m" by blast
  from fetch_firstOnly_succeeds [of False "\<lambda>n. Done" "map entry_address [?B]"] obtain m' where
    m': "fst (fetchBalancesBatch ?ev (map entry_address [?B])) = Inr m'" by blast
  from handleUploadAddresses_Inr [OF m, of emptyWorld] have
    w1: "wallets ?w1 = [newWallet m (fetchBlockNumber ?ev) (nowISO ?ev) 0 ?A 0]"
    by (simp add: uploaded_first)
  have l: "toLowerCase addrX \<noteq> addrX"
    by (simp add: toLowerCase_def lowerChar_def addrX_def)
  from handleUploadAddresses_Inr [OF m', of ?w1] have
    "wallets (handleUploadAddresses ?ev [?B] ?w1) = uploaded ?ev m' [?B] ?w1"
    by blast
  also have "map address (uploaded ?ev m' [?B] ?w1) = [addrX, toLowerCase addrX]"
    unfolding uploaded_def w1 using l
    by (simp add: setAll_def newWallet_def Let_def entryOf_def)
  finally show ?thesis .
qed

end
